theory Spec2Isabelle
  imports Complex_Main "HOL-Library.Char_ord" "HOL-Library.List_Lexorder"
begin

section \<open>Python values used by the video frame editor\<close>

text \<open>
  The program is one Python file, \<^verbatim>\<open>ImagineVideo.py\<close>. A Python \<^verbatim>\<open>str\<close> is modelled
  as a \<^typ>\<open>string\<close>; a \<^typ>\<open>char\<close> stands for the code point of the same number, so
  names with code points above 255 are outside the model. Exceptions are values of
  the type \<open>exn\<close>, and a function that may raise returns \<open>exn + 'a\<close>.
\<close>

datatype exn =
    ValueError
  | KeyError
  | TypeError
  | AttributeError
  | ZeroDivisionError
  | OverflowError
  | IndexError
  | OSError
  | FileNotFoundError
  | TimeoutExpired
  | CalledProcessError
  | JSONDecodeError
  | NameError
  | OtherException string

subsection \<open>String primitives\<close>

text \<open>\<^verbatim>\<open>s.startswith(pat)\<close>.\<close>

fun starts_with :: "string \<Rightarrow> string \<Rightarrow> bool" where
  "starts_with [] s = True"
| "starts_with (p # ps) [] = False"
| "starts_with (p # ps) (c # cs) = (p = c \<and> starts_with ps cs)"

text \<open>\<^verbatim>\<open>pat in s\<close>: some suffix of \<open>s\<close> starts with \<open>pat\<close>.\<close>

fun contains :: "string \<Rightarrow> string \<Rightarrow> bool" where
  "contains pat [] = (pat = [])"
| "contains pat (c # cs) = (starts_with pat (c # cs) \<or> contains pat cs)"

text \<open>\<^verbatim>\<open>s.rfind(pat)\<close>: the highest index at which \<open>pat\<close> occurs; \<open>None\<close> is Python's -1.\<close>

fun rfind :: "string \<Rightarrow> string \<Rightarrow> nat option" where
  "rfind pat [] = (if pat = [] then Some 0 else None)"
| "rfind pat (c # cs) =
     (case rfind pat cs of
        Some i \<Rightarrow> Some (Suc i)
      | None \<Rightarrow> if starts_with pat (c # cs) then Some 0 else None)"

text \<open>
  \<^verbatim>\<open>s.rsplit(pat, 1)\<close>: an empty separator raises \<^verbatim>\<open>ValueError\<close>; otherwise the string
  is cut once, at the last occurrence of the separator, and is returned whole in a
  one-element list when the separator does not occur.
\<close>

definition rsplit1 :: "string \<Rightarrow> string \<Rightarrow> exn + string list" where
  "rsplit1 pat s =
     (if pat = [] then Inl ValueError
      else case rfind pat s of
             None \<Rightarrow> Inr [s]
           | Some i \<Rightarrow> Inr [take i s, drop (i + length pat) s])"

text \<open>
  \<^verbatim>\<open>os.path.splitext(p)\<close> on POSIX: the extension starts at the last dot, provided
  that dot lies after the last slash and some character between the slash and the dot
  is not a dot (leading dots of a name do not start an extension).
\<close>

definition splitext :: "string \<Rightarrow> string \<times> string" where
  "splitext p =
     (case rfind ''.'' p of
        None \<Rightarrow> (p, [])
      | Some dotIndex \<Rightarrow>
          (let filenameIndex = (case rfind ''/'' p of None \<Rightarrow> 0 | Some sepIndex \<Rightarrow> Suc sepIndex)
           in if filenameIndex \<le> dotIndex
                 \<and> list_ex (\<lambda>c. c \<noteq> CHR ''.'') (take (dotIndex - filenameIndex) (drop filenameIndex p))
              then (take dotIndex p, drop dotIndex p)
              else (p, [])))"

text \<open>An extension as \<^verbatim>\<open>splitext\<close> splits it off: empty, or one dot and then no dot and no slash.\<close>

definition plain_ext :: "string \<Rightarrow> bool" where
  "plain_ext ext =
     (ext = [] \<or> (hd ext = CHR ''.'' \<and> CHR ''.'' \<notin> set (tl ext) \<and> CHR ''/'' \<notin> set (tl ext)))"

subsection \<open>\<^verbatim>\<open>int(s)\<close> and \<^verbatim>\<open>str(n)\<close>\<close>

text \<open>
  \<^verbatim>\<open>int(s)\<close> in base 10, as in CPython 3.11: white space is stripped on both sides
  (the ASCII white space of C, and the two white space characters between 128 and
  255), one sign is allowed, then come decimal digits, with single underscores allowed
  between two digits. Anything else raises \<^verbatim>\<open>ValueError\<close> (here \<open>None\<close>), and so does
  a literal of more than 4300 digits (the default limit of the interpreter).
\<close>

definition is_space :: "char \<Rightarrow> bool" where
  "is_space c = ((of_char c :: nat) \<in> {9, 10, 11, 12, 13, 32, 133, 160})"

definition digit_val :: "char \<Rightarrow> nat option" where
  "digit_val c =
     (let n = (of_char c :: nat) in if 48 \<le> n \<and> n \<le> 57 then Some (n - 48) else None)"

fun int_digits :: "string \<Rightarrow> nat list option" where
  "int_digits [] = None"
| "int_digits [c] = map_option (\<lambda>d. [d]) (digit_val c)"
| "int_digits (c # c' # cs) =
     (case digit_val c of
        None \<Rightarrow> None
      | Some d \<Rightarrow>
          if c' = CHR ''_'' then map_option ((#) d) (int_digits cs)
          else map_option ((#) d) (int_digits (c' # cs)))"

definition strip :: "string \<Rightarrow> string" where
  "strip s = dropWhile is_space (rev (dropWhile is_space (rev s)))"

definition py_int :: "string \<Rightarrow> int option" where
  "py_int s =
     (let t = strip s;
          neg = (t \<noteq> [] \<and> hd t = CHR ''-'');
          body = (if t \<noteq> [] \<and> (hd t = CHR ''-'' \<or> hd t = CHR ''+'') then tl t else t)
      in case int_digits body of
           None \<Rightarrow> None
         | Some ds \<Rightarrow>
             if length ds > 4300 then None
             else Some ((if neg then - 1 else 1) * int (foldl (\<lambda>a d. 10 * a + d) 0 ds)))"

text \<open>
  \<^verbatim>\<open>str(n)\<close> for an integer, also inside an f-string: decimal digits, with a minus sign
  when negative; more than 4300 digits raise \<^verbatim>\<open>ValueError\<close>, by the same limit.
\<close>

fun str_nat :: "nat \<Rightarrow> string" where
  "str_nat n =
     (if n < 10 then [char_of (48 + n)] else str_nat (n div 10) @ [char_of (48 + n mod 10)])"

declare str_nat.simps [simp del]

definition str_int :: "int \<Rightarrow> string" where
  "str_int i = (if i < 0 then CHR ''-'' # str_nat (nat (- i)) else str_nat (nat i))"

definition py_str :: "int \<Rightarrow> exn + string" where
  "py_str i = (if length (str_nat (nat \<bar>i\<bar>)) > 4300 then Inl ValueError else Inr (str_int i))"

text \<open>Decimal digits, and the number that a list of digit values denotes.\<close>

definition is_digit :: "char \<Rightarrow> bool" where
  "is_digit c = (digit_val c \<noteq> None)"

definition digits_value :: "nat list \<Rightarrow> nat" where
  "digits_value ds = foldl (\<lambda>a d. 10 * a + d) 0 ds"

section \<open>OutputNamer: \<^verbatim>\<open>get_max_counter\<close>\<close>

text \<open>
  The loop of \<^verbatim>\<open>get_max_counter\<close> over the entries that \<^verbatim>\<open>os.listdir\<close> returned, with
  the running maximum \<open>max_num\<close>. The \<^verbatim>\<open>ValueError\<close> of \<^verbatim>\<open>int\<close> is caught inside the loop;
  the one of \<^verbatim>\<open>rsplit\<close> on an empty pattern is not.
\<close>

fun scan_entries :: "string \<Rightarrow> string list \<Rightarrow> int \<Rightarrow> exn + int" where
  "scan_entries pattern [] max_num = Inr max_num"
| "scan_entries pattern (file # files) max_num =
     (if contains pattern file then
        (case rsplit1 pattern file of
           Inl e \<Rightarrow> Inl e
         | Inr parts \<Rightarrow>
             if length parts > 1 then
               (let num_str = fst (splitext (parts ! 1)) in
                case py_int num_str of
                  Some num \<Rightarrow> scan_entries pattern files (if num > max_num then num else max_num)
                | None \<Rightarrow> scan_entries pattern files max_num)
             else scan_entries pattern files max_num)
      else scan_entries pattern files max_num)"

text \<open>
  A file system maps the path of a directory to its entries, in the order in which
  \<^verbatim>\<open>os.listdir\<close> lists them; a path that is no directory raises.
\<close>

type_synonym filesystem = "string \<rightharpoonup> string list"

definition listdir :: "filesystem \<Rightarrow> string \<Rightarrow> exn + string list" where
  "listdir fs d = (case fs d of None \<Rightarrow> Inl FileNotFoundError | Some entries \<Rightarrow> Inr entries)"

definition get_max_counter :: "filesystem \<Rightarrow> string \<Rightarrow> string \<Rightarrow> exn + int" where
  "get_max_counter fs output_dir pattern =
     (case listdir fs output_dir of
        Inl e \<Rightarrow> Inl e
      | Inr entries \<Rightarrow> scan_entries pattern entries 0)"

text \<open>What every caller computes under the allocation lock: \<^verbatim>\<open>current_max + 1\<close>.\<close>

definition next_counter :: "filesystem \<Rightarrow> string \<Rightarrow> string \<Rightarrow> exn + int" where
  "next_counter fs output_dir tag =
     (case get_max_counter fs output_dir tag of
        Inl e \<Rightarrow> Inl e
      | Inr current_max \<Rightarrow> Inr (current_max + 1))"

text \<open>
  \<^verbatim>\<open>open(path, 'a').close()\<close> for an entry \<open>name\<close> of the directory \<open>d\<close>: the entry is
  created when it is not there, and an existing one is left as it is.
\<close>

definition touch :: "filesystem \<Rightarrow> string \<Rightarrow> string \<Rightarrow> exn + filesystem" where
  "touch fs d name =
     (case fs d of
        None \<Rightarrow> Inl FileNotFoundError
      | Some entries \<Rightarrow>
          Inr (fs(d \<mapsto> (if name \<in> set entries then entries else entries @ [name]))))"

text \<open>
  The block that the workers run while they hold \<^verbatim>\<open>self.lock\<close>: scan the directory,
  add one, build the name \<^verbatim>\<open>f"{filename}{tag}{counter}{ext}"\<close> and create the
  placeholder. The block returns the counter, the name and the new file system.
\<close>

definition allocate ::
  "filesystem \<Rightarrow> string \<Rightarrow> string \<Rightarrow> string \<Rightarrow> string \<Rightarrow> exn + (int \<times> string \<times> filesystem)" where
  "allocate fs output_dir filename tag ext =
     (case get_max_counter fs output_dir tag of
        Inl e \<Rightarrow> Inl e
      | Inr current_max \<Rightarrow>
          (let counter = current_max + 1 in
           case py_str counter of
             Inl e \<Rightarrow> Inl e
           | Inr digits \<Rightarrow>
               (let name = filename @ tag @ digits @ ext in
                case touch fs output_dir name of
                  Inl e \<Rightarrow> Inl e
                | Inr fs' \<Rightarrow> Inr (counter, name, fs'))))"

subsection \<open>The contract of the specification\<close>

text \<open>
  The specification's words for OutputNamer: for each file name that contains the tag,
  split on the last occurrence of the tag, take the remainder, strip its extension and
  try to parse an integer; the counter is the maximum of the parsed values plus one, or
  one if there is none.
\<close>

definition spec_remainder :: "string \<Rightarrow> string \<Rightarrow> string option" where
  "spec_remainder tag file =
     (if contains tag file
      then (case rfind tag file of None \<Rightarrow> None | Some i \<Rightarrow> Some (drop (i + length tag) file))
      else None)"

definition spec_parsed :: "string \<Rightarrow> string \<Rightarrow> int option" where
  "spec_parsed tag file =
     (case spec_remainder tag file of None \<Rightarrow> None | Some r \<Rightarrow> py_int (fst (splitext r)))"

definition spec_parsed_values :: "string list \<Rightarrow> string \<Rightarrow> int set" where
  "spec_parsed_values entries tag = set (List.map_filter (spec_parsed tag) entries)"

definition spec_next_counter :: "string list \<Rightarrow> string \<Rightarrow> int" where
  "spec_next_counter entries tag =
     (if spec_parsed_values entries tag = {} then 1
      else Max (spec_parsed_values entries tag) + 1)"

text \<open>
  A file system to evaluate an example with: the output directory holds one file, whose
  suffix reads as a negative number.
\<close>

definition example_negative_suffix :: filesystem where
  "example_negative_suffix = [''out'' \<mapsto> [''clip_last_-3.jpg'']]"

text \<open>
  Three states of an output directory: with the frame number 1 only; after the
  allocation of the frame number 2 for \<^verbatim>\<open>b\<close>; and, the placeholder of \<^verbatim>\<open>b\<close> being
  removed again, after an allocation for \<^verbatim>\<open>c\<close>.
\<close>

definition example_one_frame :: filesystem where
  "example_one_frame = [''out'' \<mapsto> [''a_last_1.jpg'']]"

definition example_two_frames :: filesystem where
  "example_two_frames = [''out'' \<mapsto> [''a_last_1.jpg'', ''b_last_2.jpg'']]"

definition example_frame_again :: filesystem where
  "example_frame_again = [''out'' \<mapsto> [''a_last_1.jpg'', ''c_last_2.jpg'']]"

section \<open>StabilityGate: \<^verbatim>\<open>wait_for_file_ready\<close>\<close>

text \<open>
  The loop reads the clock, then the size of the file, then sleeps. What the
  environment answers is a list of polls: the reading of \<^verbatim>\<open>time.time()\<close> in the loop
  test, and the answer of \<^verbatim>\<open>os.path.getsize\<close> in the body (\<open>None\<close> when it raises
  \<^verbatim>\<open>OSError\<close>). Clock readings are rationals; the rounding of float subtraction is not
  modelled. The result is \<open>None\<close> when the list ends before the loop does; the sleeps of
  the run are returned with the answer.
\<close>

type_synonym poll = "rat \<times> nat option"

fun wait_loop ::
  "rat \<Rightarrow> rat \<Rightarrow> rat \<Rightarrow> int \<Rightarrow> poll list \<Rightarrow> rat list \<Rightarrow> (bool \<times> rat list) option" where
  "wait_loop start_time max_wait check_interval last_size [] slept = None"
| "wait_loop start_time max_wait check_interval last_size ((now, answer) # polls) slept =
     (if now - start_time < max_wait then
        (case answer of
           Some current_size \<Rightarrow>
             if int current_size = last_size \<and> current_size > 0
             then Some (True, slept @ [1 / 2])
             else wait_loop start_time max_wait check_interval (int current_size) polls
                    (slept @ [check_interval])
         | None \<Rightarrow>
             wait_loop start_time max_wait check_interval last_size polls
               (slept @ [check_interval]))
      else Some (False, slept))"

definition wait_for_file_ready ::
  "rat \<Rightarrow> rat \<Rightarrow> rat \<Rightarrow> poll list \<Rightarrow> (bool \<times> rat list) option" where
  "wait_for_file_ready start_time max_wait check_interval polls =
     wait_loop start_time max_wait check_interval (- 1) polls []"

subsection \<open>The contract of the specification\<close>

text \<open>
  The size observed before a poll: the answer of the last poll that did not raise, and
  \<open>init\<close> when there is none.
\<close>

fun previous_size :: "int \<Rightarrow> poll list \<Rightarrow> int" where
  "previous_size init [] = init"
| "previous_size init ((now, None) # polls) = previous_size init polls"
| "previous_size init ((now, Some sz) # polls) = previous_size (int sz) polls"

definition in_window :: "rat \<Rightarrow> rat \<Rightarrow> poll \<Rightarrow> bool" where
  "in_window start_time max_wait p = (fst p - start_time < max_wait)"

text \<open>
  Some poll, taken like all polls before it within the window, observes a size that is
  not zero and equals the size observed before.
\<close>

definition stable_observation :: "rat \<Rightarrow> rat \<Rightarrow> int \<Rightarrow> poll list \<Rightarrow> bool" where
  "stable_observation start_time max_wait init polls =
     (\<exists>before now sz after.
        polls = before @ (now, Some sz) # after
        \<and> list_all (in_window start_time max_wait) before
        \<and> now - start_time < max_wait
        \<and> sz \<noteq> 0
        \<and> int sz = previous_size init before)"

text \<open>
  The window closes at some poll, and no poll before it was a stable observation.
\<close>

definition window_elapsed :: "rat \<Rightarrow> rat \<Rightarrow> int \<Rightarrow> poll list \<Rightarrow> bool" where
  "window_elapsed start_time max_wait init polls =
     (\<exists>before p after.
        polls = before @ p # after
        \<and> list_all (in_window start_time max_wait) before
        \<and> \<not> in_window start_time max_wait p
        \<and> \<not> stable_observation start_time max_wait init before)"

text \<open>
  Two abbreviations for the body of the loop: the poll is a stable observation, and the
  size remembered after the poll.
\<close>

definition first_stable :: "int \<Rightarrow> nat option \<Rightarrow> bool" where
  "first_stable init answer = (\<exists>sz. answer = Some sz \<and> sz \<noteq> 0 \<and> int sz = init)"

definition observed :: "int \<Rightarrow> nat option \<Rightarrow> int" where
  "observed init answer = (case answer of None \<Rightarrow> init | Some sz \<Rightarrow> int sz)"

section \<open>MediaProbe: \<^verbatim>\<open>get_video_info\<close>\<close>

text \<open>
  Python floats are kept abstract: the type \<open>'f\<close> of float values comes with the
  operations of the interpreter that the program uses. \<^verbatim>\<open>float(s)\<close> raises
  \<^verbatim>\<open>ValueError\<close> on a string that is no float literal, \<^verbatim>\<open>float(i)\<close> raises
  \<^verbatim>\<open>OverflowError\<close> on an integer that is too large, and \<^verbatim>\<open>x / y\<close> raises
  \<^verbatim>\<open>ZeroDivisionError\<close> when \<open>y\<close> is zero; each of these is \<open>None\<close> here.
\<close>

record 'f float_ops =
  float_of_str :: "string \<Rightarrow> 'f option"
  float_of_int :: "int \<Rightarrow> 'f option"
  fdiv :: "'f \<Rightarrow> 'f \<Rightarrow> 'f option"
  fsub :: "'f \<Rightarrow> 'f \<Rightarrow> 'f"
  fle :: "'f \<Rightarrow> 'f \<Rightarrow> bool"
  fstr :: "'f \<Rightarrow> string"
  f_one :: "'f"
  f_thirty :: "'f"

text \<open>
  The value that \<^verbatim>\<open>json.loads\<close> returns. An object is the list of its items, with
  distinct keys, as the parser builds a \<^verbatim>\<open>dict\<close>.
\<close>

datatype 'f json =
    JNull
  | JBool bool
  | JInt int
  | JFloat 'f
  | JStr string
  | JArr "'f json list"
  | JObj "(string \<times> 'f json) list"

text \<open>\<^verbatim>\<open>v[key]\<close> with a string key: only a \<^verbatim>\<open>dict\<close> can answer.\<close>

fun getitem :: "'f json \<Rightarrow> string \<Rightarrow> exn + 'f json" where
  "getitem (JObj items) key =
     (case map_of items key of None \<Rightarrow> Inl KeyError | Some v \<Rightarrow> Inr v)"
| "getitem v key = Inl TypeError"

text \<open>\<^verbatim>\<open>float(v)\<close>; a \<^verbatim>\<open>bool\<close> is an integer in Python.\<close>

fun py_float :: "'f float_ops \<Rightarrow> 'f json \<Rightarrow> exn + 'f" where
  "py_float ops (JStr s) =
     (case float_of_str ops s of None \<Rightarrow> Inl ValueError | Some x \<Rightarrow> Inr x)"
| "py_float ops (JFloat x) = Inr x"
| "py_float ops (JInt i) =
     (case float_of_int ops i of None \<Rightarrow> Inl OverflowError | Some x \<Rightarrow> Inr x)"
| "py_float ops (JBool b) =
     (case float_of_int ops (if b then 1 else 0) of None \<Rightarrow> Inl OverflowError | Some x \<Rightarrow> Inr x)"
| "py_float ops v = Inl TypeError"

text \<open>
  What \<^verbatim>\<open>for s in v\<close> runs over: the elements of a list, the keys of a \<^verbatim>\<open>dict\<close>, the
  characters of a string.
\<close>

fun iterate :: "'f json \<Rightarrow> exn + 'f json list" where
  "iterate (JArr xs) = Inr xs"
| "iterate (JObj items) = Inr (map (\<lambda>kv. JStr (fst kv)) items)"
| "iterate (JStr s) = Inr (map (\<lambda>c. JStr [c]) s)"
| "iterate v = Inl TypeError"

text \<open>
  \<^verbatim>\<open>next((s for s in streams if s['codec_type'] == 'video'), None)\<close>: the first stream
  of type video; a stream before it that has no \<^verbatim>\<open>codec_type\<close> raises.
\<close>

fun first_video :: "'f json list \<Rightarrow> exn + 'f json option" where
  "first_video [] = Inr None"
| "first_video (s # rest) =
     (case getitem s ''codec_type'' of
        Inl e \<Rightarrow> Inl e
      | Inr t \<Rightarrow> if t = JStr ''video'' then Inr (Some s) else first_video rest)"

text \<open>\<^verbatim>\<open>s.split(sep)\<close> for a separator of one character.\<close>

fun split_on :: "char \<Rightarrow> string \<Rightarrow> string list" where
  "split_on sep [] = [[]]"
| "split_on sep (c # cs) =
     (if c = sep then [] # split_on sep cs
      else (case split_on sep cs of [] \<Rightarrow> [[c]] | p # ps \<Rightarrow> (c # p) # ps))"

text \<open>
  The frame rate of the stream found: the branch \<^verbatim>\<open>if video_stream and 'r_frame_rate'
  in video_stream\<close> and what follows it. A stream that was found is a \<^verbatim>\<open>dict\<close> with a
  key, hence true.
\<close>

definition frame_rate :: "'f float_ops \<Rightarrow> 'f json option \<Rightarrow> exn + 'f" where
  "frame_rate ops video_stream =
     (case video_stream of
        Some (JObj items) \<Rightarrow>
          (case map_of items ''r_frame_rate'' of
             None \<Rightarrow> Inr (f_thirty ops)
           | Some (JStr r) \<Rightarrow>
               (let r_frame_rate = split_on CHR ''/'' r in
                if length r_frame_rate = 2 \<and> r_frame_rate ! 1 \<noteq> ''0'' then
                  (case float_of_str ops (r_frame_rate ! 0) of
                     None \<Rightarrow> Inl ValueError
                   | Some num \<Rightarrow>
                       (case float_of_str ops (r_frame_rate ! 1) of
                          None \<Rightarrow> Inl ValueError
                        | Some den \<Rightarrow>
                            (case fdiv ops num den of
                               None \<Rightarrow> Inl ZeroDivisionError
                             | Some fps \<Rightarrow> Inr fps)))
                else Inr (f_thirty ops))
           | Some v \<Rightarrow> Inl AttributeError)
      | _ \<Rightarrow> Inr (f_thirty ops))"

text \<open>The body of the \<^verbatim>\<open>try\<close> after \<^verbatim>\<open>json.loads\<close>.\<close>

definition video_info_of_json :: "'f float_ops \<Rightarrow> 'f json \<Rightarrow> exn + ('f \<times> 'f)" where
  "video_info_of_json ops data =
     (case getitem data ''format'' of
        Inl e \<Rightarrow> Inl e
      | Inr fmt \<Rightarrow>
     (case getitem fmt ''duration'' of
        Inl e \<Rightarrow> Inl e
      | Inr d \<Rightarrow>
     (case py_float ops d of
        Inl e \<Rightarrow> Inl e
      | Inr duration \<Rightarrow>
     (case getitem data ''streams'' of
        Inl e \<Rightarrow> Inl e
      | Inr streams \<Rightarrow>
     (case iterate streams of
        Inl e \<Rightarrow> Inl e
      | Inr ss \<Rightarrow>
     (case first_video ss of
        Inl e \<Rightarrow> Inl e
      | Inr video_stream \<Rightarrow>
     (case frame_rate ops video_stream of
        Inl e \<Rightarrow> Inl e
      | Inr fps \<Rightarrow> Inr (duration, fps))))))))"

text \<open>
  What running the probe tool and parsing its output gave: an exception of
  \<^verbatim>\<open>subprocess.run\<close> or of \<^verbatim>\<open>json.loads\<close>, or the parsed value.
\<close>

datatype 'f probe_output = ProbeRaised exn | ProbeParsed "'f json"

text \<open>The two \<^verbatim>\<open>except\<close> clauses of \<^verbatim>\<open>get_video_info\<close> catch these exceptions.\<close>

definition probe_caught :: "exn \<Rightarrow> bool" where
  "probe_caught e =
     (e \<in> {TimeoutExpired, CalledProcessError, JSONDecodeError, KeyError,
            ZeroDivisionError, ValueError})"

text \<open>
  \<^verbatim>\<open>get_video_info\<close>: \<open>Inr None\<close> is the answer \<^verbatim>\<open>(None, None)\<close>, and \<open>Inl e\<close> an
  exception that no clause catches.
\<close>

definition get_video_info :: "'f float_ops \<Rightarrow> 'f probe_output \<Rightarrow> exn + ('f \<times> 'f) option" where
  "get_video_info ops out =
     (case (case out of
              ProbeRaised e \<Rightarrow> Inl e
            | ProbeParsed data \<Rightarrow> video_info_of_json ops data) of
        Inl e \<Rightarrow> if probe_caught e then Inr None else Inl e
      | Inr info \<Rightarrow> Inr (Some info))"

text \<open>
  A float model to evaluate examples with: values are rationals, and \<^verbatim>\<open>float(s)\<close> is
  defined on the integer literals only, where it agrees with the interpreter (up to
  the rounding of integers beyond 2^53). On other strings this model raises where the
  interpreter may not, so it is used on integer literals only. The digits that
  \<^verbatim>\<open>str\<close> prints for a float are not modelled: \<open>fstr\<close> prints numerator and
  denominator.
\<close>

definition rat_ops :: "rat float_ops" where
  "rat_ops =
     \<lparr> float_of_str = (\<lambda>s. map_option of_int (py_int s)),
       float_of_int = (\<lambda>i. Some (of_int i)),
       fdiv = (\<lambda>x y. if y = 0 then None else Some (x / y)),
       fsub = (\<lambda>x y. x - y),
       fle = (\<lambda>x y. x \<le> y),
       fstr = (\<lambda>x. str_int (fst (quotient_of x)) @ '':'' @ str_int (snd (quotient_of x))),
       f_one = 1,
       f_thirty = 30 \<rparr>"

text \<open>
  Outputs of the probe tool to evaluate examples with: a duration of ten seconds, an
  audio stream, and a video stream with the given items besides its type.
\<close>

definition example_probe :: "(string \<times> rat json) list \<Rightarrow> rat json" where
  "example_probe items =
     JObj [(''format'', JObj [(''duration'', JStr ''10'')]),
           (''streams'', JArr [JObj [(''codec_type'', JStr ''audio'')],
                               JObj ((''codec_type'', JStr ''video'') # items)])]"

text \<open>
  Two more outputs: one whose first stream has no \<^verbatim>\<open>codec_type\<close>, before a video
  stream without a frame rate, and one whose format metadata has no duration.
\<close>

definition example_probe_untyped_stream :: "rat json" where
  "example_probe_untyped_stream =
     JObj [(''format'', JObj [(''duration'', JStr ''10'')]),
           (''streams'', JArr [JObj [(''index'', JInt 0)],
                               JObj [(''codec_type'', JStr ''video'')]])]"

definition example_probe_no_duration :: "rat json" where
  "example_probe_no_duration =
     JObj [(''format'', JObj []),
           (''streams'', JArr [JObj [(''codec_type'', JStr ''video'')]])]"

section \<open>Paths\<close>

text \<open>
  \<^verbatim>\<open>Path(p).name\<close>, \<^verbatim>\<open>.suffix\<close> and \<^verbatim>\<open>.stem\<close> of \<^verbatim>\<open>pathlib\<close> on POSIX, as in
  Python 3.11, and \<^verbatim>\<open>os.path.join\<close> of two parts. Empty components and \<^verbatim>\<open>.\<close> are
  no components of a path; a suffix starts at the last dot of the name, unless that dot
  is the first or the last character.
\<close>

definition path_name :: "string \<Rightarrow> string" where
  "path_name p =
     (case rev (filter (\<lambda>c. c \<noteq> [] \<and> c \<noteq> ''.'') (split_on CHR ''/'' p)) of
        [] \<Rightarrow> []
      | name # _ \<Rightarrow> name)"

definition path_suffix :: "string \<Rightarrow> string" where
  "path_suffix p =
     (let name = path_name p in
      case rfind ''.'' name of
        None \<Rightarrow> []
      | Some i \<Rightarrow> if 0 < i \<and> Suc i < length name then drop i name else [])"

definition path_stem :: "string \<Rightarrow> string" where
  "path_stem p =
     (let name = path_name p in
      case rfind ''.'' name of
        None \<Rightarrow> name
      | Some i \<Rightarrow> if 0 < i \<and> Suc i < length name then take i name else name)"

definition path_join :: "string \<Rightarrow> string \<Rightarrow> string" where
  "path_join a b =
     (if starts_with ''/'' b then b
      else if a = [] \<or> last a = CHR ''/'' then a @ b
      else a @ ''/'' @ b)"

text \<open>\<^verbatim>\<open>s.lower()\<close> on code points below 256.\<close>

definition lower_char :: "char \<Rightarrow> char" where
  "lower_char c =
     (let n = (of_char c :: nat) in
      if (65 \<le> n \<and> n \<le> 90) \<or> (192 \<le> n \<and> n \<le> 222 \<and> n \<noteq> 215) then char_of (n + 32) else c)"

definition lower :: "string \<Rightarrow> string" where
  "lower s = map lower_char s"

definition video_extensions :: "string set" where
  "video_extensions =
     {''.mp4'', ''.avi'', ''.mov'', ''.mkv'', ''.flv'', ''.wmv'', ''.webm'', ''.m4v'', ''.3gp''}"

section \<open>The application object\<close>

text \<open>
  The attributes of \<^verbatim>\<open>VideoEditorUI\<close> that the batch operations read and write. Python
  lists are objects: \<open>heap\<close> maps an address to the list stored there, \<open>next_addr\<close> is
  the first address not yet used, and \<open>videos\<close> is the address that \<^verbatim>\<open>self.videos\<close> is
  bound to. \<open>disk\<close> is the file system, \<open>ui_log\<close> the dialogs shown and the callbacks
  handed to \<^verbatim>\<open>root.after\<close>, in order; \<open>threads\<close> the workers started, \<open>tool_calls\<close> the
  extract and trim commands run. The file watcher is the flag \<open>watching\<close>. Progress is a
  rational; the calls of the GUI toolkit do not raise, and \<^verbatim>\<open>print\<close> is left out.

  A worker hands four callbacks to \<^verbatim>\<open>root.after\<close>: the two lambdas that call
  \<^verbatim>\<open>_extraction_complete\<close> and \<^verbatim>\<open>_trimming_complete\<close> with \<open>success_count\<close>,
  \<open>output_dir\<close> and \<open>total_videos\<close>, and the two lambdas of the outer \<^verbatim>\<open>except\<close> clauses.
  The latter carry no value: the name \<^verbatim>\<open>e\<close> that they read is unbound when the
  \<^verbatim>\<open>except\<close> clause ends (see \<open>run_callback\<close> below).
\<close>

datatype callback =
    ExtractionComplete nat string nat
  | TrimmingComplete nat string nat
  | ExtractionFailed
  | TrimmingFailed

datatype ui_event =
    ShowWarning string
  | ShowError string
  | ShowInfo string
  | After callback

datatype thread = ExtractThread nat | TrimThread nat

record app =
  video_dir :: string
  videos :: nat
  heap :: "nat \<Rightarrow> string list"
  next_addr :: nat
  video_listbox :: "string list"
  curselection :: "nat list"
  video_count_label :: string
  progress_var :: rat
  status_var :: string
  is_processing :: bool
  auto_process_var :: bool
  watching :: bool
  disk :: filesystem
  ui_log :: "ui_event list"
  threads :: "thread list"
  tool_calls :: "string list list"

text \<open>
  What the world outside answers: the float operations, what running
  \<^verbatim>\<open>ffmpeg -version\<close> raises, if anything, whether \<^verbatim>\<open>os.makedirs\<close> raises, whether a path exists, what the probe tool gives
  for a path, whether an extract or trim command raises, whether the watchdog package
  is there, what the user answers to the question of \<^verbatim>\<open>trim_last_frames\<close>, and what
  directory the user picks in \<^verbatim>\<open>browse_dir\<close>.
\<close>

record 'f world =
  float :: "'f float_ops"
  ffmpeg_version :: "exn option"
  makedirs_error :: "string \<Rightarrow> exn option"
  path_exists :: "string \<Rightarrow> bool"
  probe :: "string \<Rightarrow> 'f probe_output"
  run_ffmpeg :: "string list \<Rightarrow> exn option"
  watchdog_available :: bool
  askyesno :: bool
  askdirectory :: string

definition show_dialog :: "ui_event \<Rightarrow> app \<Rightarrow> app" where
  "show_dialog ev st = st\<lparr>ui_log := ui_log st @ [ev]\<rparr>"

text \<open>
  \<^verbatim>\<open>_check_ffmpeg\<close>: the \<^verbatim>\<open>except\<close> clause catches \<^verbatim>\<open>CalledProcessError\<close>,
  \<^verbatim>\<open>FileNotFoundError\<close> and \<^verbatim>\<open>TimeoutExpired\<close>, shows the dialog and returns
  \<^verbatim>\<open>False\<close>; any other exception of \<^verbatim>\<open>subprocess.run\<close> (a \<^verbatim>\<open>PermissionError\<close>, which
  is an \<^verbatim>\<open>OSError\<close>, for one) leaves the function.
\<close>

definition check_ffmpeg :: "'f world \<Rightarrow> app \<Rightarrow> exn + (bool \<times> app)" where
  "check_ffmpeg w st =
     (case ffmpeg_version w of
        None \<Rightarrow> Inr (True, st)
      | Some e \<Rightarrow>
          if e \<in> {CalledProcessError, FileNotFoundError, TimeoutExpired}
          then Inr (False, show_dialog (ShowError
            ''FFmpeg is not installed or not available. Please install FFmpeg to use trimming functionality.'') st)
          else Inl e)"

text \<open>\<^verbatim>\<open>os.makedirs(d, exist_ok=True)\<close>.\<close>

definition makedirs :: "'f world \<Rightarrow> string \<Rightarrow> app \<Rightarrow> exn + app" where
  "makedirs w d st =
     (case makedirs_error w d of
        Some e \<Rightarrow> Inl e
      | None \<Rightarrow> Inr (if disk st d = None then st\<lparr>disk := (disk st)(d \<mapsto> [])\<rparr> else st))"

subsection \<open>The file watcher and \<^verbatim>\<open>load_videos\<close>\<close>

definition stop_watching :: "app \<Rightarrow> app" where
  "stop_watching st = (if watching st then st\<lparr>watching := False, status_var := ''Ready''\<rparr> else st)"

definition start_file_watching :: "'f world \<Rightarrow> app \<Rightarrow> app" where
  "start_file_watching w st =
     (if \<not> watchdog_available w then
        show_dialog (ShowWarning
          ''File watching requires the 'watchdog' package. Please install it with: pip install watchdog'') st
      else if video_dir st = [] \<or> \<not> path_exists w (video_dir st) then
        show_dialog (ShowWarning ''Please select a valid directory first.'') st
      else
        (stop_watching st)
          \<lparr>watching := True,
           status_var := (if auto_process_var st then ''Auto-processing enabled...''
                          else ''Watching for new videos...'')\<rparr>)"

text \<open>\<^verbatim>\<open>self.videos.append(video_path)\<close> and the new line of the list box.\<close>

definition append_video :: "string \<Rightarrow> app \<Rightarrow> string \<Rightarrow> app" where
  "append_video dir_path st filename =
     st\<lparr>heap := (heap st)(videos st := heap st (videos st) @ [path_join dir_path filename]),
        video_listbox := video_listbox st @ [path_stem filename]\<rparr>"

text \<open>
  The \<^verbatim>\<open>try\<close> block of \<^verbatim>\<open>load_videos\<close>. \<^verbatim>\<open>self.videos = []\<close> binds the attribute to a
  new list object; the paths are appended to that object.
\<close>

definition load_videos_try :: "app \<Rightarrow> app" where
  "load_videos_try st =
     (let dir_path = video_dir st;
          st1 = st\<lparr>videos := next_addr st,
                   heap := (heap st)(next_addr st := []),
                   next_addr := Suc (next_addr st),
                   video_listbox := [],
                   curselection := []\<rparr>
      in case listdir (disk st1) dir_path of
           Inl e \<Rightarrow> show_dialog (ShowError ''Failed to load videos'') st1
         | Inr files \<Rightarrow>
             (let video_files = sort (filter (\<lambda>f. lower (path_suffix f) \<in> video_extensions) files);
                  st2 = foldl (append_video dir_path) st1 video_files;
                  count = length (heap st2 (videos st2))
              in case py_str (int count) of
                   Inl e \<Rightarrow> show_dialog (ShowError ''Failed to load videos'') st2
                 | Inr digits \<Rightarrow>
                     (let st3 = st2\<lparr>video_count_label :=
                                  digits @ '' video'' @ (if count \<noteq> 1 then ''s'' else []) @ '' loaded''\<rparr>
                      in if count = 0
                         then (show_dialog (ShowInfo ''No supported video files found in the directory.'') st3)
                                \<lparr>video_count_label := ''No videos loaded''\<rparr>
                         else st3)))"

definition load_videos :: "'f world \<Rightarrow> app \<Rightarrow> app" where
  "load_videos w st =
     (if video_dir st = [] then
        show_dialog (ShowWarning ''Please select a directory first.'') st
      else if \<not> path_exists w (video_dir st) then
        show_dialog (ShowError ''Selected directory does not exist.'') st
      else start_file_watching w (load_videos_try st))"

definition browse_dir :: "'f world \<Rightarrow> app \<Rightarrow> app" where
  "browse_dir w st =
     (if askdirectory w \<noteq> [] then load_videos w ((stop_watching st)\<lparr>video_dir := askdirectory w\<rparr>)
      else st)"

subsection \<open>Batch workers\<close>

text \<open>
  One pass of the loop of \<^verbatim>\<open>_extract_last_frames_thread\<close>: the answer says whether
  \<open>success_count\<close> is incremented. Every \<^verbatim>\<open>continue\<close> and every exception that the
  \<^verbatim>\<open>except Exception\<close> of the item catches ends the pass with \<open>False\<close>. The division
  \<^verbatim>\<open>1 / fps\<close> raises when \<open>fps\<close> is zero.
\<close>

definition extract_item :: "'f world \<Rightarrow> string \<Rightarrow> nat \<Rightarrow> nat \<Rightarrow> string \<Rightarrow> app \<Rightarrow> bool \<times> app" where
  "extract_item w output_dir total_videos i video_path st =
     (let st1 = st\<lparr>progress_var := of_nat i / of_nat total_videos * 100,
                   status_var := ''Processing: '' @ path_name video_path\<rparr>
      in if \<not> path_exists w video_path then (False, st1)
         else case get_video_info (float w) (probe w video_path) of
                Inl e \<Rightarrow> (False, st1)
              | Inr None \<Rightarrow> (False, st1)
              | Inr (Some (duration, fps)) \<Rightarrow>
                  (case fdiv (float w) (f_one (float w)) fps of
                     None \<Rightarrow> (False, st1)
                   | Some seek_offset \<Rightarrow>
                       if fle (float w) duration seek_offset then (False, st1)
                       else
                         (case allocate (disk st1) output_dir (path_stem video_path) ''_last_'' ''.jpg'' of
                            Inl e \<Rightarrow> (False, st1)
                          | Inr (counter, name, disk') \<Rightarrow>
                              (let frame_path = path_join output_dir name;
                                   cmd = [''ffmpeg'', ''-y'',
                                          ''-sseof'', ''-'' @ fstr (float w) seek_offset,
                                          ''-i'', video_path,
                                          ''-update'', ''1'',
                                          ''-q:v'', ''1'',
                                          frame_path];
                                   st2 = st1\<lparr>disk := disk', tool_calls := tool_calls st1 @ [cmd]\<rparr>
                               in case run_ffmpeg w cmd of
                                    Some e \<Rightarrow> (False, st2)
                                  | None \<Rightarrow> (True, st2)))))"

text \<open>The loop \<^verbatim>\<open>for i, video_path in enumerate(videos)\<close>, with \<open>success_count\<close>.\<close>

fun extract_loop ::
  "'f world \<Rightarrow> string \<Rightarrow> nat \<Rightarrow> nat \<Rightarrow> string list \<Rightarrow> nat \<Rightarrow> app \<Rightarrow> nat \<times> app" where
  "extract_loop w output_dir total_videos i [] success_count st = (success_count, st)"
| "extract_loop w output_dir total_videos i (video_path # rest) success_count st =
     (case extract_item w output_dir total_videos i video_path st of
        (ok, st') \<Rightarrow>
          extract_loop w output_dir total_videos (Suc i) rest
            (if ok then success_count + 1 else success_count) st')"

text \<open>
  The body of the outer \<^verbatim>\<open>try\<close> of \<^verbatim>\<open>_extract_last_frames_thread\<close>: \<open>Inl (e, st')\<close>
  when it raises \<open>e\<close> in the state \<open>st'\<close>, \<open>Inr st'\<close> when it reaches its end, where it
  hands the completion callback to \<^verbatim>\<open>root.after\<close>.
\<close>

definition extract_last_frames_try ::
  "'f world \<Rightarrow> string list \<Rightarrow> app \<Rightarrow> (exn \<times> app) + app" where
  "extract_last_frames_try w vids st0 =
     (case check_ffmpeg w st0 of
        Inl e \<Rightarrow> Inl (e, st0)
      | Inr (False, st1) \<Rightarrow> Inl (OtherException ''FFmpeg not available'', st1)
      | Inr (True, st1) \<Rightarrow>
          (let output_dir = path_join (video_dir st1) ''last_frames'' in
           case makedirs w output_dir st1 of
             Inl e \<Rightarrow> Inl (e, st1)
           | Inr st2 \<Rightarrow>
               (case extract_loop w output_dir (length vids) 0 vids 0 st2 of
                  (success_count, st3) \<Rightarrow>
                    Inr (show_dialog
                      (After (ExtractionComplete success_count output_dir (length vids))) st3))))"

text \<open>
  \<^verbatim>\<open>_extract_last_frames_thread\<close>: the statements before the \<^verbatim>\<open>try\<close>, its body, the
  \<^verbatim>\<open>except Exception\<close>, which hands its lambda to \<^verbatim>\<open>root.after\<close> whatever the
  exception is, and the \<^verbatim>\<open>finally\<close>.
\<close>

definition extract_last_frames_thread :: "'f world \<Rightarrow> string list \<Rightarrow> app \<Rightarrow> app" where
  "extract_last_frames_thread w vids st =
     (let st0 = st\<lparr>is_processing := True, progress_var := 0,
                   status_var := ''Extracting last frames...''\<rparr>
      in (case extract_last_frames_try w vids st0 of
            Inl (e, st1) \<Rightarrow> show_dialog (After ExtractionFailed) st1
          | Inr st1 \<Rightarrow> st1)
         \<lparr>is_processing := False\<rparr>)"

text \<open>One pass of the loop of \<^verbatim>\<open>_trim_last_frames_thread\<close>.\<close>

definition trim_item :: "'f world \<Rightarrow> string \<Rightarrow> nat \<Rightarrow> nat \<Rightarrow> string \<Rightarrow> app \<Rightarrow> bool \<times> app" where
  "trim_item w output_dir total_videos i video_path st =
     (let st1 = st\<lparr>progress_var := of_nat i / of_nat total_videos * 100,
                   status_var := ''Processing: '' @ path_name video_path\<rparr>
      in if \<not> path_exists w video_path then (False, st1)
         else case get_video_info (float w) (probe w video_path) of
                Inl e \<Rightarrow> (False, st1)
              | Inr None \<Rightarrow> (False, st1)
              | Inr (Some (duration, fps)) \<Rightarrow>
                  (case fdiv (float w) (f_one (float w)) fps of
                     None \<Rightarrow> (False, st1)
                   | Some frame \<Rightarrow>
                       if fle (float w) duration frame then (False, st1)
                       else
                         (let trim_duration = fsub (float w) duration frame in
                          case allocate (disk st1) output_dir (path_stem video_path) ''_trimmed_''
                                 (path_suffix video_path) of
                            Inl e \<Rightarrow> (False, st1)
                          | Inr (counter, name, disk') \<Rightarrow>
                              (let out_path = path_join output_dir name;
                                   cmd = [''ffmpeg'', ''-y'',
                                          ''-i'', video_path,
                                          ''-t'', fstr (float w) trim_duration,
                                          ''-c'', ''copy'',
                                          ''-avoid_negative_ts'', ''make_zero'',
                                          out_path];
                                   st2 = st1\<lparr>disk := disk', tool_calls := tool_calls st1 @ [cmd]\<rparr>
                               in case run_ffmpeg w cmd of
                                    Some e \<Rightarrow> (False, st2)
                                  | None \<Rightarrow> (True, st2)))))"

fun trim_loop ::
  "'f world \<Rightarrow> string \<Rightarrow> nat \<Rightarrow> nat \<Rightarrow> string list \<Rightarrow> nat \<Rightarrow> app \<Rightarrow> nat \<times> app" where
  "trim_loop w output_dir total_videos i [] success_count st = (success_count, st)"
| "trim_loop w output_dir total_videos i (video_path # rest) success_count st =
     (case trim_item w output_dir total_videos i video_path st of
        (ok, st') \<Rightarrow>
          trim_loop w output_dir total_videos (Suc i) rest
            (if ok then success_count + 1 else success_count) st')"

text \<open>The body of the outer \<^verbatim>\<open>try\<close> of \<^verbatim>\<open>_trim_last_frames_thread\<close>, and the worker.\<close>

definition trim_last_frames_try ::
  "'f world \<Rightarrow> string list \<Rightarrow> app \<Rightarrow> (exn \<times> app) + app" where
  "trim_last_frames_try w vids st0 =
     (let output_dir = path_join (video_dir st0) ''trimmed_videos'' in
      case makedirs w output_dir st0 of
        Inl e \<Rightarrow> Inl (e, st0)
      | Inr st1 \<Rightarrow>
          (case trim_loop w output_dir (length vids) 0 vids 0 st1 of
             (success_count, st2) \<Rightarrow>
               Inr (show_dialog
                 (After (TrimmingComplete success_count output_dir (length vids))) st2)))"

definition trim_last_frames_thread :: "'f world \<Rightarrow> string list \<Rightarrow> app \<Rightarrow> app" where
  "trim_last_frames_thread w vids st =
     (let st0 = st\<lparr>is_processing := True, progress_var := 0,
                   status_var := ''Trimming last frames...''\<rparr>
      in (case trim_last_frames_try w vids st0 of
            Inl (e, st1) \<Rightarrow> show_dialog (After TrimmingFailed) st1
          | Inr st1 \<Rightarrow> st1)
         \<lparr>is_processing := False\<rparr>)"

text \<open>
  \<^verbatim>\<open>_extraction_complete\<close> and \<^verbatim>\<open>_trimming_complete\<close>: progress, status and the
  dialog. The answer is the exception raised, if any, with the state reached.
\<close>

definition extraction_complete :: "nat \<Rightarrow> string \<Rightarrow> nat \<Rightarrow> app \<Rightarrow> exn option \<times> app" where
  "extraction_complete success_count output_dir total_videos st =
     (let st1 = st\<lparr>progress_var := 100\<rparr> in
      case py_str (int success_count) of
        Inl e \<Rightarrow> (Some e, st1)
      | Inr s \<Rightarrow>
          (case py_str (int total_videos) of
             Inl e \<Rightarrow> (Some e, st1)
           | Inr t \<Rightarrow>
               (None,
                show_dialog
                  (ShowInfo (''Extracted last frames from '' @ s @ '' out of '' @ t
                             @ '' videos to '' @ [CHR 0x27] @ output_dir @ [CHR 0x27] @ ''.''))
                  (st1\<lparr>status_var := ''Extracted '' @ s @ ''/'' @ t @ '' frames''\<rparr>))))"

definition trimming_complete :: "nat \<Rightarrow> string \<Rightarrow> nat \<Rightarrow> app \<Rightarrow> exn option \<times> app" where
  "trimming_complete success_count output_dir total_videos st =
     (let st1 = st\<lparr>progress_var := 100\<rparr> in
      case py_str (int success_count) of
        Inl e \<Rightarrow> (Some e, st1)
      | Inr s \<Rightarrow>
          (case py_str (int total_videos) of
             Inl e \<Rightarrow> (Some e, st1)
           | Inr t \<Rightarrow>
               (None,
                show_dialog
                  (ShowInfo (''Trimmed last frames from '' @ s @ '' out of '' @ t
                             @ '' videos to '' @ [CHR 0x27] @ output_dir @ [CHR 0x27] @ ''.''))
                  (st1\<lparr>status_var := ''Trimmed '' @ s @ ''/'' @ t @ '' videos''\<rparr>))))"

text \<open>
  What happens when Tk runs a callback, the worker having left its \<^verbatim>\<open>try\<close> statement.
  The completion lambdas read names that stay bound. The lambdas of the outer
  \<^verbatim>\<open>except\<close> clauses, \<^verbatim>\<open>lambda: messagebox.showerror("Error", f"... {str(e)}")\<close>, read
  \<^verbatim>\<open>e\<close>, which Python unbinds at the end of the clause \<^verbatim>\<open>except Exception as e\<close>: they
  raise \<^verbatim>\<open>NameError\<close> before \<^verbatim>\<open>showerror\<close> is called, and no dialog is shown.
\<close>

fun run_callback :: "callback \<Rightarrow> app \<Rightarrow> exn option \<times> app" where
  "run_callback (ExtractionComplete success_count output_dir total_videos) st =
     extraction_complete success_count output_dir total_videos st"
| "run_callback (TrimmingComplete success_count output_dir total_videos) st =
     trimming_complete success_count output_dir total_videos st"
| "run_callback ExtractionFailed st = (Some NameError, st)"
| "run_callback TrimmingFailed st = (Some NameError, st)"

text \<open>What every pass of a worker's loop does first: progress and status.\<close>

definition item_started :: "nat \<Rightarrow> nat \<Rightarrow> string \<Rightarrow> app \<Rightarrow> app" where
  "item_started total_videos i video_path st =
     st\<lparr>progress_var := of_nat i / of_nat total_videos * 100,
        status_var := ''Processing: '' @ path_name video_path\<rparr>"

text \<open>
  The three conditions of the specification under which an item is skipped: the file
  is not there, the probe answers \<^verbatim>\<open>(None, None)\<close>, or the duration is at most one
  frame, \<^verbatim>\<open>duration <= 1 / fps\<close>.
\<close>

definition skip_condition :: "'f world \<Rightarrow> string \<Rightarrow> bool" where
  "skip_condition w video_path =
     (\<not> path_exists w video_path
      \<or> (case get_video_info (float w) (probe w video_path) of
            Inl e \<Rightarrow> False
          | Inr None \<Rightarrow> True
          | Inr (Some (duration, fps)) \<Rightarrow>
              (case fdiv (float w) (f_one (float w)) fps of
                 None \<Rightarrow> False
               | Some frame \<Rightarrow> fle (float w) duration frame)))"

text \<open>
  The state in which the loop of a worker starts: the flag is set, progress and status
  are reset, and the output directory exists.
\<close>

definition worker_started :: "string \<Rightarrow> string \<Rightarrow> app \<Rightarrow> app" where
  "worker_started status output_dir st =
     (let st0 = st\<lparr>is_processing := True, progress_var := 0, status_var := status\<rparr>
      in if disk st0 output_dir = None then st0\<lparr>disk := (disk st0)(output_dir \<mapsto> [])\<rparr> else st0)"

subsection \<open>Requests of the user\<close>

text \<open>
  \<^verbatim>\<open>get_selected_videos\<close> builds a new list object in both branches and returns its
  address: the list comprehension over the selected indices (an index beyond the list
  raises), or \<^verbatim>\<open>self.videos.copy()\<close>.
\<close>

fun select_videos :: "string list \<Rightarrow> nat list \<Rightarrow> exn + string list" where
  "select_videos vs [] = Inr []"
| "select_videos vs (i # indices) =
     (if i < length vs then
        (case select_videos vs indices of Inl e \<Rightarrow> Inl e | Inr rest \<Rightarrow> Inr (vs ! i # rest))
      else Inl IndexError)"

definition new_list :: "string list \<Rightarrow> app \<Rightarrow> nat \<times> app" where
  "new_list xs st =
     (next_addr st, st\<lparr>heap := (heap st)(next_addr st := xs), next_addr := Suc (next_addr st)\<rparr>)"

definition get_selected_videos :: "bool \<Rightarrow> app \<Rightarrow> exn + (nat \<times> app)" where
  "get_selected_videos selected st =
     (if selected then
        (case select_videos (heap st (videos st)) (curselection st) of
           Inl e \<Rightarrow> Inl e
         | Inr xs \<Rightarrow> Inr (new_list xs st))
      else Inr (new_list (heap st (videos st)) st))"

definition busy_warning :: ui_event where
  "busy_warning = ShowWarning ''Another operation is in progress. Please wait.''"

text \<open>
  \<^verbatim>\<open>extract_last_frames\<close> and \<^verbatim>\<open>trim_last_frames\<close>. Starting the thread adds it to
  \<open>threads\<close>; its body runs later, on the list whose address it was given.
\<close>

definition extract_last_frames :: "bool \<Rightarrow> app \<Rightarrow> exn + app" where
  "extract_last_frames selected st =
     (if is_processing st then Inr (show_dialog busy_warning st)
      else case get_selected_videos selected st of
             Inl e \<Rightarrow> Inl e
           | Inr (vids, st1) \<Rightarrow>
               if heap st1 vids = [] then
                 Inr (show_dialog (ShowWarning ''No videos selected or loaded.'') st1)
               else Inr (st1\<lparr>threads := threads st1 @ [ExtractThread vids]\<rparr>))"

definition trim_last_frames :: "'f world \<Rightarrow> bool \<Rightarrow> app \<Rightarrow> exn + app" where
  "trim_last_frames w selected st =
     (if is_processing st then Inr (show_dialog busy_warning st)
      else case get_selected_videos selected st of
             Inl e \<Rightarrow> Inl e
           | Inr (vids, st1) \<Rightarrow>
               if heap st1 vids = [] then
                 Inr (show_dialog (ShowWarning ''No videos selected or loaded.'') st1)
               else
                 (case check_ffmpeg w st1 of
                    Inl e \<Rightarrow> Inl e
                  | Inr (False, st2) \<Rightarrow> Inr st2
                  | Inr (True, st2) \<Rightarrow>
                      if askyesno w then Inr (st2\<lparr>threads := threads st2 @ [TrimThread vids]\<rparr>)
                      else Inr st2))"

definition run_thread :: "'f world \<Rightarrow> thread \<Rightarrow> app \<Rightarrow> app" where
  "run_thread w t st =
     (case t of
        ExtractThread vids \<Rightarrow> extract_last_frames_thread w (heap st vids) st
      | TrimThread vids \<Rightarrow> trim_last_frames_thread w (heap st vids) st)"

text \<open>
  What the main thread may do while a worker runs: reload the list, pick another
  directory, change the selection, ask for another run. Each action comes with the
  answers of the world at that moment; a request that raises leaves the state as it
  was.
\<close>

datatype ui_action =
    LoadVideos
  | BrowseDir
  | Select "nat list"
  | ExtractRequest bool
  | TrimRequest bool

fun ui_step :: "'f world \<times> ui_action \<Rightarrow> app \<Rightarrow> app" where
  "ui_step (w, LoadVideos) st = load_videos w st"
| "ui_step (w, BrowseDir) st = browse_dir w st"
| "ui_step (w, Select indices) st = st\<lparr>curselection := indices\<rparr>"
| "ui_step (w, ExtractRequest selected) st =
     (case extract_last_frames selected st of Inl e \<Rightarrow> st | Inr st' \<Rightarrow> st')"
| "ui_step (w, TrimRequest selected) st =
     (case trim_last_frames w selected st of Inl e \<Rightarrow> st | Inr st' \<Rightarrow> st')"

fun ui_run :: "('f world \<times> ui_action) list \<Rightarrow> app \<Rightarrow> app" where
  "ui_run [] st = st"
| "ui_run (a # as) st = ui_run as (ui_step a st)"

subsection \<open>A world and a state for examples\<close>

text \<open>
  A world and an application state to evaluate examples with. The directory
  \<^verbatim>\<open>/v\<close> holds two videos and is loaded, the directory \<^verbatim>\<open>/w\<close> holds one;
  \<^verbatim>\<open>gone.mp4\<close> does not exist, the probe fails on
  \<^verbatim>\<open>broken.mp4\<close>, \<^verbatim>\<open>tiny.mp4\<close> lasts ten seconds at one frame in twenty seconds, and
  every other video lasts ten seconds at 25 frames per second.
\<close>

definition example_world :: "rat world" where
  "example_world =
     \<lparr> float = rat_ops,
       ffmpeg_version = None,
       makedirs_error = (\<lambda>d. None),
       path_exists = (\<lambda>p. p \<noteq> ''/v/gone.mp4''),
       probe = (\<lambda>p. if p = ''/v/broken.mp4'' then ProbeRaised CalledProcessError
                    else if p = ''/v/tiny.mp4''
                    then ProbeParsed (example_probe [(''r_frame_rate'', JStr ''1/20'')])
                    else ProbeParsed (example_probe [(''r_frame_rate'', JStr ''25/1'')])),
       run_ffmpeg = (\<lambda>cmd. None),
       watchdog_available = True,
       askyesno = True,
       askdirectory = [] \<rparr>"

definition example_app :: app where
  "example_app =
     \<lparr> video_dir = ''/v'',
       videos = 0,
       heap = (\<lambda>a. [])(0 := [''/v/a.mp4'', ''/v/b.mov'']),
       next_addr = 1,
       video_listbox = [''a'', ''b''],
       curselection = [],
       video_count_label = ''2 videos loaded'',
       progress_var = 0,
       status_var = ''Ready'',
       is_processing = False,
       auto_process_var = False,
       watching = False,
       disk = [''/v'' \<mapsto> [''a.mp4'', ''b.mov'', ''c.txt''], ''/w'' \<mapsto> [''z.MKV'', ''notes.txt'']],
       ui_log = [],
       threads = [],
       tool_calls = [] \<rparr>"

text \<open>The same world without the tool, and without the right to make directories.\<close>

definition example_world_without_tool :: "rat world" where
  "example_world_without_tool = example_world\<lparr>ffmpeg_version := Some FileNotFoundError\<rparr>"

definition example_world_without_directory :: "rat world" where
  "example_world_without_directory = example_world\<lparr>makedirs_error := (\<lambda>d. Some OSError)\<rparr>"

section \<open>Properties of OutputNamer\<close>

lemma contains_iff_rfind: "contains pat s \<longleftrightarrow> rfind pat s \<noteq> None"
  by (induction s) (auto split: option.splits)

lemma contains_empty: "contains [] s"
  by (cases s) simp_all

lemma rfind_empty: "rfind [] s = Some (length s)"
  by (induction s) simp_all

lemma scan_entries_step:
  assumes "pattern \<noteq> []"
  shows "scan_entries pattern (file # files) m =
           scan_entries pattern files
             (case spec_parsed pattern file of None \<Rightarrow> m | Some n \<Rightarrow> max m n)"
proof (cases "contains pattern file")
  case False
  then show ?thesis by (simp add: spec_parsed_def spec_remainder_def)
next
  case True
  then obtain i where i: "rfind pattern file = Some i"
    by (auto simp: contains_iff_rfind)
  with True assms show ?thesis
    by (auto simp: spec_parsed_def spec_remainder_def rsplit1_def max_def split: option.splits)
qed

lemma spec_parsed_values_Cons:
  "spec_parsed_values (file # files) tag =
     (case spec_parsed tag file of None \<Rightarrow> {} | Some n \<Rightarrow> {n}) \<union> spec_parsed_values files tag"
  by (simp add: spec_parsed_values_def List.map_filter_simps split: option.splits)

lemma finite_spec_parsed_values: "finite (spec_parsed_values entries tag)"
  by (simp add: spec_parsed_values_def)

lemma spec_parsed_values_iff:
  "n \<in> spec_parsed_values entries tag \<longleftrightarrow> (\<exists>file \<in> set entries. spec_parsed tag file = Some n)"
  by (induction entries) (auto simp: spec_parsed_values_Cons spec_parsed_values_def List.map_filter_simps split: option.splits)

lemma scan_entries_Max:
  assumes "pattern \<noteq> []"
  shows "scan_entries pattern entries m = Inr (Max (insert m (spec_parsed_values entries pattern)))"
proof (induction entries arbitrary: m)
  case Nil
  show ?case by (simp add: spec_parsed_values_def List.map_filter_simps)
next
  case (Cons f fs)
  let ?S = "spec_parsed_values fs pattern"
  have fin: "finite ?S" by (rule finite_spec_parsed_values)
  show ?case
  proof (cases "spec_parsed pattern f")
    case None
    then show ?thesis
      by (simp add: scan_entries_step [OF assms] Cons.IH spec_parsed_values_Cons del: scan_entries.simps)
  next
    case (Some n)
    have "Max (insert (max m n) ?S) = Max (insert m (insert n ?S))"
      using fin by (cases "?S = {}") (simp_all add: max.assoc)
    with Some show ?thesis
      by (simp add: scan_entries_step [OF assms] Cons.IH spec_parsed_values_Cons del: scan_entries.simps)
  qed
qed

lemma scan_entries_empty_pattern:
  "scan_entries [] entries m = (if entries = [] then Inr m else Inl ValueError)"
  by (cases entries) (simp_all add: rsplit1_def contains_empty)

lemma spec_parsed_empty_tag: "spec_parsed [] file = None"
  by (simp add: spec_parsed_def spec_remainder_def contains_empty rfind_empty splitext_def
      py_int_def strip_def)

lemma get_max_counter_Max:
  assumes "fs d = Some entries" and "pattern \<noteq> []"
  shows "get_max_counter fs d pattern = Inr (Max (insert 0 (spec_parsed_values entries pattern)))"
  using assms by (simp add: get_max_counter_def listdir_def scan_entries_Max)

text \<open>
  Claim C2, as amended. For every list of directory entries and every tag that is not
  empty, the counter that the callers compute, \<^verbatim>\<open>get_max_counter(output_dir, tag) + 1\<close>,
  is one plus the maximum of 0 and of the integers parsed from the entries: the
  remainder after the last occurrence of the tag, without its extension, read by
  \<^verbatim>\<open>int\<close>; entries without the tag and remainders that \<^verbatim>\<open>int\<close> rejects do not count.
  The maximum starts at 0, so parsed integers that are zero or negative never show in
  the result, and the counter is 1 when no entry yields a positive integer.
\<close>

theorem next_counter_contract:
  assumes "fs d = Some entries" and "tag \<noteq> []"
  shows "next_counter fs d tag = Inr (1 + Max (insert 0 (spec_parsed_values entries tag)))"
  using assms by (simp add: next_counter_def get_max_counter_Max)

text \<open>The contract at a directory with one numbered file, one file with a suffix that is no
  number, and one file without the tag.\<close>

theorem next_counter_contract_witness:
  "next_counter [''out'' \<mapsto> [''a_last_2.jpg'', ''b_last_x.jpg'', ''c.txt'']] ''out'' ''_last_''
     = Inr (1 + Max (insert 0 (spec_parsed_values [''a_last_2.jpg'', ''b_last_x.jpg'', ''c.txt''] ''_last_'')))
   \<and> spec_parsed_values [''a_last_2.jpg'', ''b_last_x.jpg'', ''c.txt''] ''_last_'' = {2}
   \<and> next_counter [''out'' \<mapsto> [''a_last_2.jpg'', ''b_last_x.jpg'', ''c.txt'']] ''out'' ''_last_'' = Inr 3"
proof -
  have "spec_parsed_values [''a_last_2.jpg'', ''b_last_x.jpg'', ''c.txt''] ''_last_'' = {2}"
    by (simp add: spec_parsed_values_def List.map_filter_simps spec_parsed_def spec_remainder_def
        splitext_def py_int_def strip_def is_space_def digit_val_def)
  moreover have "next_counter [''out'' \<mapsto> [''a_last_2.jpg'', ''b_last_x.jpg'', ''c.txt'']] ''out'' ''_last_''
     = Inr (1 + Max (insert 0 (spec_parsed_values [''a_last_2.jpg'', ''b_last_x.jpg'', ''c.txt''] ''_last_'')))"
    by (rule next_counter_contract) simp_all
  ultimately show ?thesis by simp
qed

text \<open>
  The claim as it was stated, one plus the maximum of the parsed integers, fails where
  every parsed integer is negative: for the single entry \<^verbatim>\<open>clip_last_-3.jpg\<close> the program
  allocates 1, and the specification's formula gives -2.
\<close>

theorem next_counter_contract_counterexample:
  "listdir example_negative_suffix ''out'' = Inr [''clip_last_-3.jpg'']
   \<and> next_counter example_negative_suffix ''out'' ''_last_'' = Inr 1
   \<and> spec_next_counter [''clip_last_-3.jpg''] ''_last_'' = - 2"
  by (simp add: example_negative_suffix_def next_counter_def get_max_counter_def listdir_def rsplit1_def
      spec_next_counter_def spec_parsed_values_def List.map_filter_simps spec_parsed_def
      spec_remainder_def splitext_def py_int_def strip_def is_space_def digit_val_def)

text \<open>
  Claim C9. For every content of an existing directory and every tag,
  \<^verbatim>\<open>get_max_counter\<close> returns a value that is at least 0 and at least every parsed
  integer, so the allocated counter is at least 1. Negative remainders are parsed (the
  witness below shows \<^verbatim>\<open>clip_last_-3.jpg\<close> read as -3) and do not lower the result,
  because the maximum starts at 0. A tag is not empty; on an empty pattern
  \<^verbatim>\<open>rsplit\<close> raises, see \<open>scan_entries_empty_pattern\<close>.
\<close>

theorem get_max_counter_nonneg:
  assumes "fs d = Some entries" and "pattern \<noteq> []"
  shows "\<exists>m. get_max_counter fs d pattern = Inr m \<and> 0 \<le> m
           \<and> (\<forall>n \<in> spec_parsed_values entries pattern. n \<le> m)
           \<and> next_counter fs d pattern = Inr (m + 1) \<and> 1 \<le> m + 1"
proof -
  let ?S = "spec_parsed_values entries pattern"
  let ?m = "Max (insert 0 ?S)"
  have fin: "finite (insert 0 ?S)" by (simp add: finite_spec_parsed_values)
  have m: "get_max_counter fs d pattern = Inr ?m"
    using assms by (rule get_max_counter_Max)
  have "0 \<le> ?m" using fin by (rule Max_ge) simp
  moreover have "\<forall>n \<in> ?S. n \<le> ?m" using fin by (auto intro: Max_ge)
  moreover have "next_counter fs d pattern = Inr (?m + 1)"
    using m by (simp add: next_counter_def)
  ultimately show ?thesis using m by auto
qed

theorem get_max_counter_nonneg_witness:
  "spec_parsed ''_last_'' ''clip_last_-3.jpg'' = Some (- 3)
   \<and> get_max_counter [''out'' \<mapsto> [''clip_last_-3.jpg'']] ''out'' ''_last_'' = Inr 0
   \<and> (\<exists>m. get_max_counter [''out'' \<mapsto> [''clip_last_-3.jpg'']] ''out'' ''_last_'' = Inr m \<and> 0 \<le> m
           \<and> (\<forall>n \<in> spec_parsed_values [''clip_last_-3.jpg''] ''_last_''. n \<le> m)
           \<and> next_counter [''out'' \<mapsto> [''clip_last_-3.jpg'']] ''out'' ''_last_'' = Inr (m + 1) \<and> 1 \<le> m + 1)"
proof -
  have a: "spec_parsed ''_last_'' ''clip_last_-3.jpg'' = Some (- 3)"
    by (simp add: spec_parsed_def spec_remainder_def splitext_def py_int_def strip_def
        is_space_def digit_val_def)
  have b: "get_max_counter [''out'' \<mapsto> [''clip_last_-3.jpg'']] ''out'' ''_last_'' = Inr 0"
    by (simp add: get_max_counter_def listdir_def rsplit1_def splitext_def py_int_def strip_def
        is_space_def digit_val_def)
  have c: "\<exists>m. get_max_counter [''out'' \<mapsto> [''clip_last_-3.jpg'']] ''out'' ''_last_'' = Inr m \<and> 0 \<le> m
           \<and> (\<forall>n \<in> spec_parsed_values [''clip_last_-3.jpg''] ''_last_''. n \<le> m)
           \<and> next_counter [''out'' \<mapsto> [''clip_last_-3.jpg'']] ''out'' ''_last_'' = Inr (m + 1) \<and> 1 \<le> m + 1"
    by (rule get_max_counter_nonneg) simp_all
  from a b c show ?thesis by blast
qed

text \<open>
  Claim C8. Two calls that see the same content of the directory, in whatever order
  \<^verbatim>\<open>os.listdir\<close> lists it, give the same answer; for a tag that is not empty the
  answer is a counter, the same both times.
\<close>

theorem next_counter_idempotent:
  assumes "fs1 d = Some entries1" and "fs2 d = Some entries2" and "set entries1 = set entries2"
  shows "next_counter fs1 d tag = next_counter fs2 d tag
         \<and> (tag \<noteq> [] \<longrightarrow> (\<exists>c. next_counter fs1 d tag = Inr c))"
proof (cases "tag = []")
  case True
  from assms(3) have "entries1 = [] \<longleftrightarrow> entries2 = []" by auto
  with True assms(1,2) show ?thesis
    by (simp add: next_counter_def get_max_counter_def listdir_def scan_entries_empty_pattern)
next
  case False
  from assms(3) have "spec_parsed_values entries1 tag = spec_parsed_values entries2 tag"
    by (auto simp: spec_parsed_values_iff)
  with False assms(1,2) show ?thesis
    by (simp add: next_counter_def get_max_counter_Max)
qed

theorem next_counter_idempotent_witness:
  "next_counter [''out'' \<mapsto> [''a_last_1.jpg'', ''b_last_2.jpg'']] ''out'' ''_last_''
     = next_counter [''out'' \<mapsto> [''b_last_2.jpg'', ''a_last_1.jpg'']] ''out'' ''_last_''
   \<and> next_counter [''out'' \<mapsto> [''a_last_1.jpg'', ''b_last_2.jpg'']] ''out'' ''_last_'' = Inr 3"
proof -
  have "next_counter [''out'' \<mapsto> [''a_last_1.jpg'', ''b_last_2.jpg'']] ''out'' ''_last_'' = Inr 3"
    by (simp add: next_counter_def get_max_counter_def listdir_def rsplit1_def splitext_def
        py_int_def strip_def is_space_def digit_val_def)
  moreover have "next_counter [''out'' \<mapsto> [''a_last_1.jpg'', ''b_last_2.jpg'']] ''out'' ''_last_''
     = next_counter [''out'' \<mapsto> [''b_last_2.jpg'', ''a_last_1.jpg'']] ''out'' ''_last_''"
    using next_counter_idempotent [of "[''out'' \<mapsto> [''a_last_1.jpg'', ''b_last_2.jpg'']]" "''out''"
        "[''a_last_1.jpg'', ''b_last_2.jpg'']" "[''out'' \<mapsto> [''b_last_2.jpg'', ''a_last_1.jpg'']]"
        "[''b_last_2.jpg'', ''a_last_1.jpg'']" "''_last_''"]
    by (simp add: insert_commute)
  ultimately show ?thesis by simp
qed

lemma touch_entries:
  assumes "touch fs d name = Inr fs1"
  shows "\<exists>entries1. fs1 d = Some entries1 \<and> name \<in> set entries1"
  using assms by (auto simp: touch_def split: option.splits)

lemma get_max_counter_ge_parsed:
  assumes "fs d = Some entries" and "name \<in> set entries" and "spec_parsed tag name = Some c"
  shows "\<exists>m. get_max_counter fs d tag = Inr m \<and> c \<le> m"
proof -
  from assms(3) have tag: "tag \<noteq> []" by (auto simp: spec_parsed_empty_tag)
  have "c \<in> insert 0 (spec_parsed_values entries tag)"
    using assms(2,3) by (auto simp: spec_parsed_values_iff)
  then have "c \<le> Max (insert 0 (spec_parsed_values entries tag))"
    by (intro Max_ge) (simp_all add: finite_spec_parsed_values)
  with get_max_counter_Max [of fs d entries tag] assms(1) tag show ?thesis by simp
qed

subsection \<open>The placeholder of a worker parses to its counter\<close>

lemma digit_val_char_of: "d < 10 \<Longrightarrow> digit_val (char_of (48 + d)) = Some d"
  by (simp add: digit_val_def Let_def)

lemma str_nat_unfold:
  "str_nat n = (if n < 10 then [char_of (48 + n)] else str_nat (n div 10) @ [char_of (48 + n mod 10)])"
  by (rule str_nat.simps)

lemma str_nat_digits: "str_nat n \<noteq> [] \<and> list_all is_digit (str_nat n)"
proof (induction n rule: str_nat.induct)
  case (1 n)
  show ?case
  proof (cases "n < 10")
    case True
    then show ?thesis
      by (subst str_nat_unfold, subst (2) str_nat_unfold) (simp add: is_digit_def digit_val_char_of)
  next
    case False
    with "1.IH" have "list_all is_digit (str_nat (n div 10))" by simp
    moreover have "is_digit (char_of (48 + n mod 10))"
      by (simp add: is_digit_def digit_val_char_of)
    ultimately show ?thesis using False
      by (subst str_nat_unfold, subst (2) str_nat_unfold) simp
  qed
qed

lemma is_digit_not_special:
  assumes "is_digit c"
  shows "c \<noteq> CHR ''_''" "c \<noteq> CHR ''.''" "c \<noteq> CHR ''/''" "c \<noteq> CHR ''-''" "c \<noteq> CHR ''+''"
    "\<not> is_space c"
  using assms by (auto simp: is_digit_def digit_val_def is_space_def Let_def)

lemma int_digits_all_digits:
  assumes "s \<noteq> []" and "list_all is_digit s"
  shows "int_digits s = Some (map (\<lambda>c. the (digit_val c)) s)"
  using assms
proof (induction s rule: int_digits.induct)
  case 1
  then show ?case by simp
next
  case (2 c)
  then show ?case by (auto simp: is_digit_def)
next
  case (3 c c' cs)
  from "3.prems" have c: "is_digit c" and c': "is_digit c'" and cs: "list_all is_digit (c' # cs)"
    by simp_all
  from c' have ne: "c' \<noteq> CHR ''_''" by (rule is_digit_not_special)
  from c obtain d where d: "digit_val c = Some d" by (auto simp: is_digit_def)
  from "3.IH"(2) [OF d ne] cs have "int_digits (c' # cs) = Some (map (\<lambda>c. the (digit_val c)) (c' # cs))"
    by simp
  with d ne show ?case by simp
qed

lemma digits_value_snoc: "digits_value (ds @ [d]) = 10 * digits_value ds + d"
  by (simp add: digits_value_def)

lemma str_nat_value: "digits_value (map (\<lambda>c. the (digit_val c)) (str_nat n)) = n"
proof (induction n rule: str_nat.induct)
  case (1 n)
  show ?case
  proof (cases "n < 10")
    case True
    then show ?thesis
      by (subst str_nat_unfold) (simp add: digits_value_def digit_val_char_of)
  next
    case False
    with "1.IH" have "digits_value (map (\<lambda>c. the (digit_val c)) (str_nat (n div 10))) = n div 10"
      by simp
    with False show ?thesis
      by (subst str_nat_unfold) (simp add: digits_value_snoc digit_val_char_of)
  qed
qed

lemma strip_no_space:
  assumes "list_all (\<lambda>c. \<not> is_space c) s"
  shows "strip s = s"
proof -
  have a: "dropWhile is_space (rev s) = rev s"
    using assms by (cases "rev s") (auto simp: list_all_iff dropWhile_eq_self_iff)
  have b: "dropWhile is_space s = s"
    using assms by (cases s) (auto simp: list_all_iff)
  show ?thesis by (simp add: strip_def a b)
qed

lemma py_int_str_nat:
  "py_int (str_nat n) = (if length (str_nat n) > 4300 then None else Some (int n))"
proof -
  let ?s = "str_nat n"
  from str_nat_digits [of n] have ne: "?s \<noteq> []" and dig: "list_all is_digit ?s" by simp_all
  from dig have "list_all (\<lambda>c. \<not> is_space c) ?s"
    by (auto simp: list_all_iff dest: is_digit_not_special)
  then have strip: "strip ?s = ?s" by (rule strip_no_space)
  from ne dig have "is_digit (hd ?s)" by (cases ?s) simp_all
  then have hd: "hd ?s \<noteq> CHR ''-''" "hd ?s \<noteq> CHR ''+''" by (auto dest: is_digit_not_special)
  have ds: "int_digits ?s = Some (map (\<lambda>c. the (digit_val c)) ?s)"
    using ne dig by (rule int_digits_all_digits)
  show ?thesis
    using str_nat_value [of n]
    by (simp add: py_int_def strip hd ds Let_def digits_value_def)
qed

lemma py_str_Inr:
  assumes "py_str c = Inr digits" and "0 \<le> c"
  shows "digits = str_nat (nat c) \<and> py_int digits = Some c"
  using assms by (auto simp: py_str_def str_int_def py_int_str_nat split: if_splits)

lemma rfind_first_absent: "p \<notin> set s \<Longrightarrow> rfind (p # ps) s = None"
  by (induction s) auto

lemma rfind_append: "rfind pat s = Some i \<Longrightarrow> rfind pat (pre @ s) = Some (length pre + i)"
  by (induction pre) auto

lemma starts_with_set: "starts_with pat s \<Longrightarrow> set pat \<subseteq> set s"
  by (induction pat s rule: starts_with.induct) auto

lemma rfind_last_tag:
  assumes "CHR ''_'' \<notin> set rest"
  shows "rfind ''_last_'' (stem @ ''_last_'' @ rest) = Some (length stem)"
proof -
  from assms have none: "rfind ''_last_'' rest = None" by (rule rfind_first_absent)
  from assms have "\<not> starts_with ''last_'' rest" by (auto dest: starts_with_set)
  with none have "rfind ''_last_'' (''_last_'' @ rest) = Some 0" by simp
  then show ?thesis using rfind_append [of "''_last_''" "''_last_'' @ rest" 0 stem] by simp
qed

lemma rfind_trimmed_tag:
  assumes "CHR ''_'' \<notin> set rest"
  shows "rfind ''_trimmed_'' (stem @ ''_trimmed_'' @ rest) = Some (length stem)"
proof -
  from assms have none: "rfind ''_trimmed_'' rest = None" by (rule rfind_first_absent)
  from assms have "\<not> starts_with ''trimmed_'' rest" by (auto dest: starts_with_set)
  with none have "rfind ''_trimmed_'' (''_trimmed_'' @ rest) = Some 0" by simp
  then show ?thesis using rfind_append [of "''_trimmed_''" "''_trimmed_'' @ rest" 0 stem] by simp
qed

lemma splitext_digits:
  assumes ne: "digits \<noteq> []" and dig: "list_all is_digit digits" and ext: "plain_ext ext"
  shows "splitext (digits @ ext) = (digits, ext)"
proof (cases ext)
  case Nil
  from dig have "CHR ''.'' \<notin> set digits" by (auto simp: list_all_iff dest: is_digit_not_special)
  then have "rfind ''.'' digits = None" by (rule rfind_first_absent)
  with Nil show ?thesis by (simp add: splitext_def)
next
  case (Cons e es)
  with ext have e: "e = CHR ''.''" and es: "CHR ''.'' \<notin> set es" "CHR ''/'' \<notin> set es"
    by (simp_all add: plain_ext_def)
  from es(1) have "rfind ''.'' es = None" by (rule rfind_first_absent)
  then have "rfind ''.'' (CHR ''.'' # es) = Some 0" by simp
  then have dot: "rfind ''.'' (digits @ CHR ''.'' # es) = Some (length digits)"
    using rfind_append [of "''.''" "CHR ''.'' # es" 0 digits] by simp
  from dig es(2) have "CHR ''/'' \<notin> set (digits @ CHR ''.'' # es)"
    by (auto simp: list_all_iff dest: is_digit_not_special)
  then have sep: "rfind ''/'' (digits @ CHR ''.'' # es) = None" by (rule rfind_first_absent)
  from ne dig have "list_ex (\<lambda>c. c \<noteq> CHR ''.'') digits"
    by (cases digits) (auto dest: is_digit_not_special)
  with dot sep show ?thesis by (simp add: splitext_def Cons e)
qed

lemma placeholder_parsed:
  assumes str: "py_str c = Inr digits" and c: "0 \<le> c"
    and ext: "plain_ext ext" and us: "CHR ''_'' \<notin> set ext"
    and tag: "tag = ''_last_'' \<or> tag = ''_trimmed_''"
  shows "spec_parsed tag (stem @ tag @ digits @ ext) = Some c"
proof -
  from py_str_Inr [OF str c] have d: "digits = str_nat (nat c)" and p: "py_int digits = Some c"
    by blast+
  from d str_nat_digits [of "nat c"] have ne: "digits \<noteq> []" and dig: "list_all is_digit digits"
    by simp_all
  from dig us have rest: "CHR ''_'' \<notin> set (digits @ ext)"
    by (auto simp: list_all_iff dest: is_digit_not_special)
  from tag have "rfind tag (stem @ tag @ digits @ ext) = Some (length stem)"
  proof
    assume "tag = ''_last_''"
    with rfind_last_tag [OF rest, of stem] show ?thesis by blast
  next
    assume "tag = ''_trimmed_''"
    with rfind_trimmed_tag [OF rest, of stem] show ?thesis by blast
  qed
  then have "spec_remainder tag (stem @ tag @ digits @ ext) = Some (digits @ ext)"
    by (simp add: spec_remainder_def contains_iff_rfind)
  with splitext_digits [OF ne dig ext] p show ?thesis by (simp add: spec_parsed_def)
qed

lemma lower_char_special:
  assumes "x = CHR ''.'' \<or> x = CHR ''/'' \<or> x = CHR ''_''"
  shows "lower_char c = x \<longleftrightarrow> c = x"
proof
  assume "c = x"
  with assms show "lower_char c = x" by (auto simp: lower_char_def Let_def)
next
  assume l: "lower_char c = x"
  let ?n = "of_char c :: nat"
  show "c = x"
  proof (cases "(65 \<le> ?n \<and> ?n \<le> 90) \<or> (192 \<le> ?n \<and> ?n \<le> 222 \<and> ?n \<noteq> 215)")
    case False
    with l show ?thesis by (simp add: lower_char_def Let_def)
  next
    case True
    with l have "char_of (?n + 32) = x" by (simp add: lower_char_def Let_def)
    then have "(of_char (char_of (?n + 32) :: char) :: nat) = of_char x" by simp
    moreover from True have "?n + 32 < 256" by auto
    ultimately have "?n + 32 = of_char x" by (simp add: of_char_of)
    with True assms show ?thesis by auto
  qed
qed

lemma lower_plain_ext:
  "plain_ext (lower ext) \<longleftrightarrow> plain_ext ext"
  "CHR ''_'' \<in> set (lower ext) \<longleftrightarrow> CHR ''_'' \<in> set ext"
proof -
  have mem: "x \<in> set (map lower_char s) \<longleftrightarrow> x \<in> set s"
    if x: "x = CHR ''.'' \<or> x = CHR ''/'' \<or> x = CHR ''_''" for x s
  proof
    assume "x \<in> set (map lower_char s)"
    then obtain y where y: "y \<in> set s" "lower_char y = x" by auto
    from y(2) have "y = x" by (simp add: lower_char_special [OF x])
    with y(1) show "x \<in> set s" by simp
  next
    assume "x \<in> set s"
    moreover have "lower_char x = x" by (simp add: lower_char_special [OF x])
    ultimately show "x \<in> set (map lower_char s)" by force
  qed
  show "plain_ext (lower ext) \<longleftrightarrow> plain_ext ext"
  proof (cases ext)
    case Nil
    then show ?thesis by (simp add: plain_ext_def lower_def)
  next
    case (Cons e es)
    then show ?thesis
      using mem [of "CHR ''.''" es] mem [of "CHR ''/''" es] lower_char_special [of "CHR ''.''" e]
      by (simp add: plain_ext_def lower_def)
  qed
  show "CHR ''_'' \<in> set (lower ext) \<longleftrightarrow> CHR ''_'' \<in> set ext"
    using mem [of "CHR ''_''" ext] by (simp add: lower_def)
qed

lemma video_extension_plain:
  assumes "lower ext \<in> video_extensions"
  shows "plain_ext ext \<and> CHR ''_'' \<notin> set ext"
proof -
  from assms have "plain_ext (lower ext) \<and> CHR ''_'' \<notin> set (lower ext)"
    unfolding video_extensions_def by (auto simp: plain_ext_def)
  then show ?thesis by (simp add: lower_plain_ext)
qed

lemma allocate_Inr:
  assumes "allocate fs d filename tag ext = Inr (c, name, fs1)"
  obtains current_max digits where "get_max_counter fs d tag = Inr current_max"
    and "c = current_max + 1" and "py_str c = Inr digits"
    and "name = filename @ tag @ digits @ ext" and "touch fs d name = Inr fs1"
  using assms by (auto simp: allocate_def Let_def split: sum.splits)

lemma worker_placeholder_parsed:
  assumes alloc: "allocate fs d filename tag ext = Inr (c, name, fs1)"
    and worker: "(tag = ''_last_'' \<and> ext = ''.jpg'')
                 \<or> (tag = ''_trimmed_'' \<and> lower ext \<in> video_extensions)"
  shows "spec_parsed tag name = Some c"
proof -
  from alloc obtain current_max digits where
    cm: "get_max_counter fs d tag = Inr current_max" and c: "c = current_max + 1"
    and str: "py_str c = Inr digits" and name: "name = filename @ tag @ digits @ ext"
    and t: "touch fs d name = Inr fs1"
    by (rule allocate_Inr)
  from t obtain entries where entries: "fs d = Some entries"
    by (auto simp: touch_def split: option.splits)
  from worker have tag: "tag = ''_last_'' \<or> tag = ''_trimmed_''" by blast
  then have "tag \<noteq> []" by auto
  with entries cm have "current_max = Max (insert 0 (spec_parsed_values entries tag))"
    by (simp add: get_max_counter_Max)
  moreover have "0 \<le> Max (insert 0 (spec_parsed_values entries tag))"
    by (intro Max_ge) (simp_all add: finite_spec_parsed_values)
  ultimately have nonneg: "0 \<le> c" using c by simp
  from worker have "plain_ext ext \<and> CHR ''_'' \<notin> set ext"
  proof
    assume "tag = ''_last_'' \<and> ext = ''.jpg''"
    then show ?thesis by (simp add: plain_ext_def)
  next
    assume "tag = ''_trimmed_'' \<and> lower ext \<in> video_extensions"
    then show ?thesis by (simp add: video_extension_plain)
  qed
  then have "spec_parsed tag (filename @ tag @ digits @ ext) = Some c"
    using placeholder_parsed [OF str nonneg _ _ tag] by blast
  with name show ?thesis by simp
qed

text \<open>
  Two allocations of a worker, one after the other under the lock, never return the
  same counter.
\<close>

lemma worker_allocations_increase:
  assumes first: "allocate fs d filename tag ext = Inr (c, name, fs1)"
    and worker: "(tag = ''_last_'' \<and> ext = ''.jpg'')
                 \<or> (tag = ''_trimmed_'' \<and> lower ext \<in> video_extensions)"
    and second: "allocate fs1 d filename' tag ext' = Inr (c', name', fs2)"
  shows "c < c'"
proof -
  from first worker have parsed: "spec_parsed tag name = Some c"
    by (rule worker_placeholder_parsed)
  from first have "touch fs d name = Inr fs1" by (rule allocate_Inr)
  then obtain entries1 where e1: "fs1 d = Some entries1" "name \<in> set entries1"
    using touch_entries by blast
  from get_max_counter_ge_parsed [of fs1 d entries1 name tag c] e1 parsed obtain m where
    m: "get_max_counter fs1 d tag = Inr m" "c \<le> m" by blast
  from second obtain m' where "get_max_counter fs1 d tag = Inr m'" "c' = m' + 1"
    by (rule allocate_Inr)
  with m show ?thesis by simp
qed

text \<open>
  Claim C1, as amended. Let an allocation under the lock compute the counter \<open>c\<close> and
  create the placeholder \<open>name\<close>, whose remainder after the last occurrence of the tag
  parses to \<open>c\<close>. Then \<open>c\<close> is at least 1 (and is 1 in an empty directory), the
  placeholder is in the directory, and in every later state of the directory in which
  that placeholder remains, the counter that the next caller computes for the same
  directory and tag is greater than \<open>c\<close>; a further allocation returns that greater
  counter, unless \<^verbatim>\<open>str\<close> refuses to print it, and it leaves the placeholder in the
  directory, so that the same holds for the allocation after it. The counter \<open>c\<close> is
  not given out again while the file that carries it remains. The assumption on the
  remainder holds for the names that the two workers build, by
  \<open>worker_placeholder_parsed\<close>.
\<close>

theorem counter_reservation:
  assumes alloc: "allocate fs d filename tag ext = Inr (c, name, fs1)"
    and parsed: "spec_parsed tag name = Some c"
    and later: "fs2 d = Some entries2"
    and remains: "name \<in> set entries2"
  shows "1 \<le> c
         \<and> (fs d = Some [] \<longrightarrow> c = 1)
         \<and> (\<exists>entries1. fs1 d = Some entries1 \<and> name \<in> set entries1)
         \<and> (\<exists>c'. next_counter fs2 d tag = Inr c' \<and> c < c'
                \<and> (case allocate fs2 d filename' tag ext' of
                      Inr (c'', name', fs3) \<Rightarrow> c'' = c'
                    | Inl e \<Rightarrow> py_str c' = Inl e))
         \<and> (\<forall>d'' filename'' tag'' ext'' c'' name'' fs3.
                allocate fs2 d'' filename'' tag'' ext'' = Inr (c'', name'', fs3) \<longrightarrow>
                (\<exists>entries3. fs3 d = Some entries3 \<and> name \<in> set entries3))"
proof -
  from parsed have tag: "tag \<noteq> []" by (auto simp: spec_parsed_empty_tag)
  from alloc obtain current_max where
    cm: "get_max_counter fs d tag = Inr current_max" and c: "c = current_max + 1"
    and t: "touch fs d name = Inr fs1"
    by (auto simp: allocate_def Let_def split: sum.splits)
  from t obtain entries where entries: "fs d = Some entries"
    by (auto simp: touch_def split: option.splits)
  have cmax: "current_max = Max (insert 0 (spec_parsed_values entries tag))"
    using get_max_counter_Max [of fs d entries tag] entries tag cm by simp
  have "0 \<le> Max (insert 0 (spec_parsed_values entries tag))"
    by (intro Max_ge) (simp_all add: finite_spec_parsed_values)
  with cmax c have one: "1 \<le> c" by simp
  have first: "fs d = Some [] \<longrightarrow> c = 1"
    using entries cmax c by (auto simp: spec_parsed_values_def List.map_filter_simps)
  from get_max_counter_ge_parsed [of fs2 d entries2 name tag c] later remains parsed obtain m where
    m: "get_max_counter fs2 d tag = Inr m" and cm': "c \<le> m" by blast
  have "case allocate fs2 d filename' tag ext' of
          Inr (c'', name', fs3) \<Rightarrow> c'' = m + 1
        | Inl e \<Rightarrow> py_str (m + 1) = Inl e"
    using m later by (simp add: allocate_def Let_def touch_def split: sum.splits)
  with m cm' have nxt: "\<exists>c'. next_counter fs2 d tag = Inr c' \<and> c < c'
      \<and> (case allocate fs2 d filename' tag ext' of
            Inr (c'', name', fs3) \<Rightarrow> c'' = c'
          | Inl e \<Rightarrow> py_str c' = Inl e)"
    by (simp add: next_counter_def)
  have keeps: "\<exists>entries3. fs3 d = Some entries3 \<and> name \<in> set entries3"
    if "allocate fs2 d'' filename'' tag'' ext'' = Inr (c'', name'', fs3)"
    for d'' filename'' tag'' ext'' c'' name'' fs3
  proof -
    from that have "touch fs2 d'' name'' = Inr fs3" by (rule allocate_Inr)
    with later remains show ?thesis
      by (cases "d'' = d") (auto simp: touch_def split: option.splits)
  qed
  from one first touch_entries [OF t] nxt keeps show ?thesis by blast
qed

text \<open>
  The extract worker allocates in a directory that holds the frame number 1: it gets
  the counter 2, its placeholder parses to 2, and the allocation after it gets 3.
\<close>

theorem counter_reservation_witness:
  "allocate [''out'' \<mapsto> [''a_last_1.jpg'']] ''out'' ''b'' ''_last_'' ''.jpg''
     = Inr (2, ''b_last_2.jpg'', [''out'' \<mapsto> [''a_last_1.jpg'', ''b_last_2.jpg'']])
   \<and> spec_parsed ''_last_'' ''b_last_2.jpg'' = Some 2
   \<and> allocate [''out'' \<mapsto> [''a_last_1.jpg'', ''b_last_2.jpg'']] ''out'' ''c'' ''_last_'' ''.jpg''
     = Inr (3, ''c_last_3.jpg'', [''out'' \<mapsto> [''a_last_1.jpg'', ''b_last_2.jpg'', ''c_last_3.jpg'']])
   \<and> (\<exists>c'. next_counter [''out'' \<mapsto> [''a_last_1.jpg'', ''b_last_2.jpg'']] ''out'' ''_last_'' = Inr c'
          \<and> 2 < c'
          \<and> (case allocate [''out'' \<mapsto> [''a_last_1.jpg'', ''b_last_2.jpg'']] ''out'' ''c'' ''_last_'' ''.jpg'' of
                Inr (c'', name', fs3) \<Rightarrow> c'' = c'
              | Inl e \<Rightarrow> py_str c' = Inl e))"
proof -
  have str: "py_str 2 = Inr ''2''" "py_str 3 = Inr ''3''"
    by code_simp+
  have a: "allocate [''out'' \<mapsto> [''a_last_1.jpg'']] ''out'' ''b'' ''_last_'' ''.jpg''
     = Inr (2, ''b_last_2.jpg'', [''out'' \<mapsto> [''a_last_1.jpg'', ''b_last_2.jpg'']])"
    by (simp add: allocate_def get_max_counter_def listdir_def rsplit1_def splitext_def
        py_int_def strip_def is_space_def digit_val_def touch_def str Let_def)
  have b: "allocate [''out'' \<mapsto> [''a_last_1.jpg'', ''b_last_2.jpg'']] ''out'' ''c'' ''_last_'' ''.jpg''
     = Inr (3, ''c_last_3.jpg'', [''out'' \<mapsto> [''a_last_1.jpg'', ''b_last_2.jpg'', ''c_last_3.jpg'']])"
    by (simp add: allocate_def get_max_counter_def listdir_def rsplit1_def splitext_def
        py_int_def strip_def is_space_def digit_val_def touch_def str Let_def)
  have p: "spec_parsed ''_last_'' ''b_last_2.jpg'' = Some 2"
    using a by (rule worker_placeholder_parsed) simp
  have l: "[''out'' \<mapsto> [''a_last_1.jpg'', ''b_last_2.jpg'']] ''out''
             = Some [''a_last_1.jpg'', ''b_last_2.jpg'']" by simp
  have r: "''b_last_2.jpg'' \<in> set [''a_last_1.jpg'', ''b_last_2.jpg'']" by simp
  from a b p l r
    counter_reservation [where fs = "[''out'' \<mapsto> [''a_last_1.jpg'']]" and d = "''out''"
      and filename = "''b''" and tag = "''_last_''" and ext = "''.jpg''" and c = 2
      and name = "''b_last_2.jpg''" and ?fs1.0 = "[''out'' \<mapsto> [''a_last_1.jpg'', ''b_last_2.jpg'']]"
      and ?fs2.0 = "[''out'' \<mapsto> [''a_last_1.jpg'', ''b_last_2.jpg'']]"
      and ?entries2.0 = "[''a_last_1.jpg'', ''b_last_2.jpg'']"
      and filename' = "''c''" and ext' = "''.jpg''"]
  show ?thesis by blast
qed

text \<open>
  The claim as it was stated, a greater counter for every subsequent allocation while
  any prior file with the tag remains, fails when the placeholder itself is removed:
  the counter is computed from the directory anew at every allocation. In a directory
  that holds the frame number 1, the allocation for \<^verbatim>\<open>b\<close> gets the counter 2 and
  creates \<^verbatim>\<open>b_last_2.jpg\<close>. With that file removed and the prior file
  \<^verbatim>\<open>a_last_1.jpg\<close> remaining, the directory is as it was, and the next allocation
  gets the counter 2 again.
\<close>

theorem counter_reservation_counterexample:
  "allocate example_one_frame ''out'' ''b'' ''_last_'' ''.jpg''
     = Inr (2, ''b_last_2.jpg'', example_two_frames)
   \<and> spec_parsed ''_last_'' ''b_last_2.jpg'' = Some 2
   \<and> example_one_frame ''out'' = Some [''a_last_1.jpg'']
   \<and> next_counter example_one_frame ''out'' ''_last_'' = Inr 2
   \<and> allocate example_one_frame ''out'' ''c'' ''_last_'' ''.jpg''
     = Inr (2, ''c_last_2.jpg'', example_frame_again)"
proof -
  have str: "py_str 2 = Inr ''2''"
    by code_simp
  have a: "allocate example_one_frame ''out'' ''b'' ''_last_'' ''.jpg''
     = Inr (2, ''b_last_2.jpg'', example_two_frames)"
    by (simp add: allocate_def get_max_counter_def listdir_def rsplit1_def splitext_def
        py_int_def strip_def is_space_def digit_val_def touch_def str Let_def
        example_one_frame_def example_two_frames_def)
  have p: "spec_parsed ''_last_'' ''b_last_2.jpg'' = Some 2"
    using a by (rule worker_placeholder_parsed) simp
  have n: "next_counter example_one_frame ''out'' ''_last_'' = Inr 2"
    by (simp add: next_counter_def get_max_counter_def listdir_def rsplit1_def splitext_def
        py_int_def strip_def is_space_def digit_val_def example_one_frame_def)
  have b: "allocate example_one_frame ''out'' ''c'' ''_last_'' ''.jpg''
     = Inr (2, ''c_last_2.jpg'', example_frame_again)"
    by (simp add: allocate_def get_max_counter_def listdir_def rsplit1_def splitext_def
        py_int_def strip_def is_space_def digit_val_def touch_def str Let_def
        example_one_frame_def example_frame_again_def)
  from a p n b show ?thesis by (simp add: example_one_frame_def)
qed

section \<open>Properties of StabilityGate\<close>

lemma previous_size_Cons:
  "previous_size init ((now, answer) # polls) = previous_size (observed init answer) polls"
  by (cases answer) (simp_all add: observed_def)

lemma stable_observation_Nil: "\<not> stable_observation start_time max_wait init []"
  by (simp add: stable_observation_def)

lemma stable_observation_Cons:
  "stable_observation start_time max_wait init ((now, answer) # polls) \<longleftrightarrow>
     now - start_time < max_wait
     \<and> (first_stable init answer \<or> stable_observation start_time max_wait (observed init answer) polls)"
  (is "?L \<longleftrightarrow> ?R")
proof
  assume ?L
  then obtain before now' sz after where
    split: "(now, answer) # polls = before @ (now', Some sz) # after"
    and win: "list_all (in_window start_time max_wait) before"
    and now': "now' - start_time < max_wait"
    and sz: "sz \<noteq> 0" "int sz = previous_size init before"
    unfolding stable_observation_def by blast
  show ?R
  proof (cases before)
    case Nil
    with split now' sz show ?thesis by (auto simp: first_stable_def)
  next
    case (Cons b bs)
    with split have b: "b = (now, answer)" and polls: "polls = bs @ (now', Some sz) # after"
      by simp_all
    from win Cons b have "now - start_time < max_wait" and "list_all (in_window start_time max_wait) bs"
      by (simp_all add: in_window_def)
    moreover from sz Cons b have "int sz = previous_size (observed init answer) bs"
      by (simp add: previous_size_Cons)
    ultimately show ?thesis
      using polls now' sz(1) unfolding stable_observation_def by blast
  qed
next
  assume R: ?R
  then have now: "now - start_time < max_wait" by simp
  from R consider "first_stable init answer"
    | "stable_observation start_time max_wait (observed init answer) polls" by blast
  then show ?L
  proof cases
    case 1
    then obtain sz where "answer = Some sz" "sz \<noteq> 0" "int sz = init"
      by (auto simp: first_stable_def)
    with now have "(now, answer) # polls = [] @ (now, Some sz) # polls
      \<and> list_all (in_window start_time max_wait) []
      \<and> now - start_time < max_wait \<and> sz \<noteq> 0 \<and> int sz = previous_size init []"
      by simp
    then show ?thesis unfolding stable_observation_def by blast
  next
    case 2
    then obtain before now' sz after where
      "polls = before @ (now', Some sz) # after"
      "list_all (in_window start_time max_wait) before"
      "now' - start_time < max_wait" "sz \<noteq> 0"
      "int sz = previous_size (observed init answer) before"
      unfolding stable_observation_def by blast
    with now have "(now, answer) # polls = ((now, answer) # before) @ (now', Some sz) # after
      \<and> list_all (in_window start_time max_wait) ((now, answer) # before)
      \<and> now' - start_time < max_wait \<and> sz \<noteq> 0
      \<and> int sz = previous_size init ((now, answer) # before)"
      by (simp add: in_window_def previous_size_Cons)
    then show ?thesis unfolding stable_observation_def by blast
  qed
qed

lemma window_elapsed_Nil: "\<not> window_elapsed start_time max_wait init []"
  by (simp add: window_elapsed_def)

lemma window_elapsed_Cons:
  "window_elapsed start_time max_wait init ((now, answer) # polls) \<longleftrightarrow>
     (if now - start_time < max_wait
      then \<not> first_stable init answer
           \<and> window_elapsed start_time max_wait (observed init answer) polls
      else True)"
  (is "?L \<longleftrightarrow> ?R")
proof (cases "now - start_time < max_wait")
  case False
  then have "(now, answer) # polls = [] @ (now, answer) # polls
    \<and> list_all (in_window start_time max_wait) []
    \<and> \<not> in_window start_time max_wait (now, answer)
    \<and> \<not> stable_observation start_time max_wait init []"
    by (simp add: in_window_def stable_observation_Nil)
  then have ?L unfolding window_elapsed_def by blast
  with False show ?thesis by simp
next
  case True
  show ?thesis
  proof
    assume ?L
    then obtain before p after where
      split: "(now, answer) # polls = before @ p # after"
      and win: "list_all (in_window start_time max_wait) before"
      and p: "\<not> in_window start_time max_wait p"
      and ns: "\<not> stable_observation start_time max_wait init before"
      unfolding window_elapsed_def by blast
    show ?R
    proof (cases before)
      case Nil
      with split p True show ?thesis by (auto simp: in_window_def)
    next
      case (Cons b bs)
      with split have b: "b = (now, answer)" and polls: "polls = bs @ p # after" by simp_all
      from ns Cons b True have "\<not> first_stable init answer"
        and "\<not> stable_observation start_time max_wait (observed init answer) bs"
        by (simp_all add: stable_observation_Cons)
      moreover from win Cons have "list_all (in_window start_time max_wait) bs" by simp
      ultimately have "\<not> first_stable init answer
        \<and> window_elapsed start_time max_wait (observed init answer) polls"
        using polls p unfolding window_elapsed_def by blast
      with True show ?thesis by simp
    qed
  next
    assume ?R
    with True have nf: "\<not> first_stable init answer"
      and we: "window_elapsed start_time max_wait (observed init answer) polls" by simp_all
    from we obtain before p after where
      "polls = before @ p # after"
      "list_all (in_window start_time max_wait) before"
      "\<not> in_window start_time max_wait p"
      "\<not> stable_observation start_time max_wait (observed init answer) before"
      unfolding window_elapsed_def by blast
    with True nf have "(now, answer) # polls = ((now, answer) # before) @ p # after
      \<and> list_all (in_window start_time max_wait) ((now, answer) # before)
      \<and> \<not> in_window start_time max_wait p
      \<and> \<not> stable_observation start_time max_wait init ((now, answer) # before)"
      by (simp add: in_window_def stable_observation_Cons)
    then show ?L unfolding window_elapsed_def by blast
  qed
qed

lemma wait_loop_Cons:
  "wait_loop start_time max_wait check_interval last_size ((now, answer) # polls) slept =
     (if now - start_time < max_wait then
        if first_stable last_size answer then Some (True, slept @ [1 / 2])
        else wait_loop start_time max_wait check_interval (observed last_size answer) polls
               (slept @ [check_interval])
      else Some (False, slept))"
  by (cases answer) (auto simp: first_stable_def observed_def)

lemma wait_loop_ready:
  "(\<exists>sl. wait_loop start_time max_wait check_interval last_size polls slept = Some (True, sl))
     \<longleftrightarrow> stable_observation start_time max_wait last_size polls"
proof (induction polls arbitrary: last_size slept)
  case Nil
  show ?case by (simp add: stable_observation_Nil)
next
  case (Cons p polls)
  obtain now answer where p: "p = (now, answer)" by (cases p)
  show ?case
    unfolding p wait_loop_Cons stable_observation_Cons using Cons.IH by auto
qed

lemma wait_loop_not_ready:
  "(\<exists>sl. wait_loop start_time max_wait check_interval last_size polls slept = Some (False, sl))
     \<longleftrightarrow> window_elapsed start_time max_wait last_size polls"
proof (induction polls arbitrary: last_size slept)
  case Nil
  show ?case by (simp add: window_elapsed_Nil)
next
  case (Cons p polls)
  obtain now answer where p: "p = (now, answer)" by (cases p)
  show ?case
    unfolding p wait_loop_Cons window_elapsed_Cons using Cons.IH by auto
qed

lemma wait_loop_returns:
  assumes "\<exists>p \<in> set polls. \<not> in_window start_time max_wait p"
  shows "wait_loop start_time max_wait check_interval last_size polls slept \<noteq> None"
  using assms
proof (induction polls arbitrary: last_size slept)
  case Nil
  then show ?case by simp
next
  case (Cons p polls)
  obtain now answer where p: "p = (now, answer)" by (cases p)
  show ?case
  proof (cases "now - start_time < max_wait")
    case False
    then show ?thesis by (simp add: p wait_loop_Cons del: wait_loop.simps)
  next
    case True
    with Cons.prems p have "\<exists>q \<in> set polls. \<not> in_window start_time max_wait q"
      by (auto simp: in_window_def)
    then have "\<And>l s. wait_loop start_time max_wait check_interval l polls s \<noteq> None"
      by (rule Cons.IH)
    with True show ?thesis by (auto simp: p wait_loop_Cons simp del: wait_loop.simps)
  qed
qed

lemma wait_loop_sleeps:
  assumes "wait_loop start_time max_wait check_interval last_size polls slept = Some (ready, sl)"
  shows "\<exists>k. sl = slept @ replicate k check_interval @ (if ready then [1 / 2] else [])"
  using assms
proof (induction polls arbitrary: last_size slept)
  case Nil
  then show ?case by simp
next
  case (Cons p polls)
  obtain now answer where p: "p = (now, answer)" by (cases p)
  show ?case
  proof (cases "now - start_time < max_wait \<and> \<not> first_stable last_size answer")
    case False
    with Cons.prems have "sl = slept @ replicate 0 check_interval @ (if ready then [1 / 2] else [])"
      by (auto simp: p wait_loop_Cons simp del: wait_loop.simps split: if_splits)
    then show ?thesis by blast
  next
    case True
    with Cons.prems have "wait_loop start_time max_wait check_interval (observed last_size answer)
        polls (slept @ [check_interval]) = Some (ready, sl)"
      by (simp add: p wait_loop_Cons del: wait_loop.simps)
    then obtain k where "sl = (slept @ [check_interval]) @ replicate k check_interval
        @ (if ready then [1 / 2] else [])"
      using Cons.IH by blast
    then have "sl = slept @ replicate (Suc k) check_interval @ (if ready then [1 / 2] else [])"
      by simp
    then show ?thesis by blast
  qed
qed

text \<open>
  Claim C7. For every sequence of polls, \<^verbatim>\<open>wait_for_file_ready\<close> returns Ready exactly
  when some poll within the window observes a size that is not zero and equals the size
  observed before it (a poll that raised observes nothing, and polling goes on); it
  then has slept the confirmation wait of half a second last. It returns NotReady
  exactly when the window closes before any such observation. It does return as soon
  as some clock reading lies outside the window.
\<close>

theorem wait_for_file_ready_contract:
  "((\<exists>sl. wait_for_file_ready start_time max_wait check_interval polls = Some (True, sl))
      \<longleftrightarrow> stable_observation start_time max_wait (- 1) polls)
   \<and> ((\<exists>sl. wait_for_file_ready start_time max_wait check_interval polls = Some (False, sl))
      \<longleftrightarrow> window_elapsed start_time max_wait (- 1) polls)
   \<and> (\<forall>sl. wait_for_file_ready start_time max_wait check_interval polls = Some (True, sl)
      \<longrightarrow> (\<exists>k. sl = replicate k check_interval @ [1 / 2]))
   \<and> ((\<exists>p \<in> set polls. \<not> in_window start_time max_wait p)
      \<longrightarrow> wait_for_file_ready start_time max_wait check_interval polls \<noteq> None)"
proof -
  have "\<exists>k. sl = replicate k check_interval @ [1 / 2]"
    if "wait_for_file_ready start_time max_wait check_interval polls = Some (True, sl)" for sl
    using wait_loop_sleeps [of start_time max_wait check_interval "- 1" polls "[]" True sl] that
    by (simp add: wait_for_file_ready_def)
  then show ?thesis
    unfolding wait_for_file_ready_def
    using wait_loop_ready [of start_time max_wait check_interval "- 1" polls "[]"]
      wait_loop_not_ready [of start_time max_wait check_interval "- 1" polls "[]"]
      wait_loop_returns [of polls start_time max_wait check_interval "- 1" "[]"]
    by (simp add: wait_for_file_ready_def)
qed

text \<open>
  A file whose size is the same at the first and the third poll, the second poll having
  raised, is ready after two sleeps and the confirmation wait; a file that keeps
  changing until the clock reads 60 is not ready.
\<close>

theorem wait_for_file_ready_contract_witness:
  "wait_for_file_ready 0 60 1 [(0, Some 100), (1, None), (2, Some 100), (61, Some 100)]
     = Some (True, [1, 1, 1 / 2])
   \<and> stable_observation 0 60 (- 1) [(0, Some 100), (1, None), (2, Some 100), (61, Some 100)]
   \<and> wait_for_file_ready 0 60 1 [(0, Some 100), (30, Some 200), (60, Some 200)]
     = Some (False, [1, 1])
   \<and> window_elapsed 0 60 (- 1) [(0, Some 100), (30, Some 200), (60, Some 200)]"
proof -
  have a: "wait_for_file_ready 0 60 1 [(0, Some 100), (1, None), (2, Some 100), (61, Some 100)]
     = Some (True, [1, 1, 1 / 2])"
    by (simp add: wait_for_file_ready_def)
  have b: "wait_for_file_ready 0 60 1 [(0, Some 100), (30, Some 200), (60, Some 200)]
     = Some (False, [1, 1])"
    by (simp add: wait_for_file_ready_def)
  from a have "stable_observation 0 60 (- 1) [(0, Some 100), (1, None), (2, Some 100), (61, Some 100)]"
    using wait_for_file_ready_contract [of 0 60 1 "[(0, Some 100), (1, None), (2, Some 100), (61, Some 100)]"]
    by blast
  moreover from b have "window_elapsed 0 60 (- 1) [(0, Some 100), (30, Some 200), (60, Some 200)]"
    using wait_for_file_ready_contract [of 0 60 1 "[(0, Some 100), (30, Some 200), (60, Some 200)]"]
    by blast
  ultimately show ?thesis using a b by simp
qed

section \<open>Properties of MediaProbe\<close>

lemma getitem_Inr: "getitem v key = Inr x \<Longrightarrow> \<exists>items. v = JObj items \<and> map_of items key = Some x"
  by (cases v) (auto split: option.splits)

lemma first_video_found:
  "first_video ss = Inr (Some v) \<Longrightarrow>
     \<exists>items. v = JObj items \<and> map_of items ''codec_type'' = Some (JStr ''video'') \<and> v \<in> set ss"
proof (induction ss)
  case Nil
  then show ?case by simp
next
  case (Cons s rest)
  show ?case
  proof (cases "getitem s ''codec_type''")
    case (Inl e)
    with Cons.prems show ?thesis by simp
  next
    case (Inr t)
    show ?thesis
    proof (cases "t = JStr ''video''")
      case True
      with Inr Cons.prems have "v = s" by simp
      with Inr True show ?thesis by (auto dest: getitem_Inr)
    next
      case False
      with Inr Cons.prems have "first_video rest = Inr (Some v)" by simp
      with Cons.IH show ?thesis by auto
    qed
  qed
qed

lemma get_video_info_frame_rate:
  assumes "getitem data ''format'' = Inr fmt"
    and "getitem fmt ''duration'' = Inr d"
    and "py_float ops d = Inr duration"
    and "getitem data ''streams'' = Inr streams"
    and "iterate streams = Inr ss"
    and "first_video ss = Inr video_stream"
  shows "get_video_info ops (ProbeParsed data) =
           (case frame_rate ops video_stream of
              Inl e \<Rightarrow> if probe_caught e then Inr None else Inl e
            | Inr fps \<Rightarrow> Inr (Some (duration, fps)))"
  using assms by (simp add: get_video_info_def video_info_of_json_def split: sum.splits)

text \<open>
  Claim C5, as amended. Let the probe tool have run, and let its parsed output have a
  duration in the format metadata that \<^verbatim>\<open>float\<close> accepts, and streams of which one is
  of type video while every stream before the first such has a \<^verbatim>\<open>codec_type\<close>. If
  that first video stream has no \<^verbatim>\<open>r_frame_rate\<close>, or its \<^verbatim>\<open>r_frame_rate\<close> is a string
  that does not split at the slash into exactly two parts, or a string whose second
  part is the string \<^verbatim>\<open>0\<close>, the probe returns the duration with 30.0 frames per
  second. If it is a string of two parts, the second not the string \<^verbatim>\<open>0\<close>, and both
  parts are float literals, the probe returns the duration with numerator divided by
  denominator, and \<^verbatim>\<open>(None, None)\<close> when that division raises, which it does for a
  denominator of value zero; if a part is no float literal, the probe returns
  \<^verbatim>\<open>(None, None)\<close>.
\<close>

theorem probe_frame_rate:
  assumes "getitem data ''format'' = Inr fmt"
    and "getitem fmt ''duration'' = Inr d"
    and "py_float ops d = Inr duration"
    and "getitem data ''streams'' = Inr streams"
    and "iterate streams = Inr ss"
    and "first_video ss = Inr (Some (JObj items))"
  shows "(map_of items ''r_frame_rate'' = None \<longrightarrow>
            get_video_info ops (ProbeParsed data) = Inr (Some (duration, f_thirty ops)))
       \<and> (\<forall>r. map_of items ''r_frame_rate'' = Some (JStr r)
              \<and> (length (split_on CHR ''/'' r) \<noteq> 2 \<or> split_on CHR ''/'' r ! 1 = ''0'') \<longrightarrow>
            get_video_info ops (ProbeParsed data) = Inr (Some (duration, f_thirty ops)))
       \<and> (\<forall>r num_s den_s num den. map_of items ''r_frame_rate'' = Some (JStr r)
              \<and> split_on CHR ''/'' r = [num_s, den_s] \<and> den_s \<noteq> ''0''
              \<and> float_of_str ops num_s = Some num \<and> float_of_str ops den_s = Some den \<longrightarrow>
            get_video_info ops (ProbeParsed data) =
              (case fdiv ops num den of
                 Some fps \<Rightarrow> Inr (Some (duration, fps))
               | None \<Rightarrow> Inr None))
       \<and> (\<forall>r num_s den_s. map_of items ''r_frame_rate'' = Some (JStr r)
              \<and> split_on CHR ''/'' r = [num_s, den_s] \<and> den_s \<noteq> ''0''
              \<and> (float_of_str ops num_s = None \<or> float_of_str ops den_s = None) \<longrightarrow>
            get_video_info ops (ProbeParsed data) = Inr None)"
proof -
  note info = get_video_info_frame_rate [OF assms]
  have a: "get_video_info ops (ProbeParsed data) = Inr (Some (duration, f_thirty ops))"
    if "map_of items ''r_frame_rate'' = None"
    using that by (simp add: info frame_rate_def)
  have b: "get_video_info ops (ProbeParsed data) = Inr (Some (duration, f_thirty ops))"
    if "map_of items ''r_frame_rate'' = Some (JStr r)"
      and "length (split_on CHR ''/'' r) \<noteq> 2 \<or> split_on CHR ''/'' r ! 1 = ''0''" for r
    using that by (auto simp: info frame_rate_def Let_def)
  have c: "get_video_info ops (ProbeParsed data) =
             (case fdiv ops num den of Some fps \<Rightarrow> Inr (Some (duration, fps)) | None \<Rightarrow> Inr None)"
    if "map_of items ''r_frame_rate'' = Some (JStr r)"
      and "split_on CHR ''/'' r = [num_s, den_s]" and "den_s \<noteq> ''0''"
      and "float_of_str ops num_s = Some num" and "float_of_str ops den_s = Some den"
    for r num_s den_s num den
    using that by (simp add: info frame_rate_def Let_def probe_caught_def split: option.splits)
  have d: "get_video_info ops (ProbeParsed data) = Inr None"
    if "map_of items ''r_frame_rate'' = Some (JStr r)"
      and "split_on CHR ''/'' r = [num_s, den_s]" and "den_s \<noteq> ''0''"
      and "float_of_str ops num_s = None \<or> float_of_str ops den_s = None"
    for r num_s den_s
    using that by (auto simp: info frame_rate_def Let_def probe_caught_def split: option.splits)
  from a b c d show ?thesis by blast
qed

text \<open>
  The three cases at work: a rate of 30000/1001, a rate written \<^verbatim>\<open>0/0\<close>, and a video
  stream without the field.
\<close>

theorem probe_frame_rate_witness:
  "get_video_info rat_ops (ProbeParsed (example_probe [(''r_frame_rate'', JStr ''30000/1001'')]))
     = Inr (Some (10, 30000 / 1001))
   \<and> get_video_info rat_ops (ProbeParsed (example_probe [(''r_frame_rate'', JStr ''0/0'')]))
     = Inr (Some (10, 30))
   \<and> get_video_info rat_ops (ProbeParsed (example_probe [])) = Inr (Some (10, 30))"
proof -
  have ten: "py_float rat_ops (JStr ''10'') = Inr 10"
    by (simp add: rat_ops_def py_int_def strip_def is_space_def digit_val_def)
  have num: "float_of_str rat_ops ''30000'' = Some 30000"
    by (simp add: rat_ops_def py_int_def strip_def is_space_def digit_val_def)
  have den: "float_of_str rat_ops ''1001'' = Some 1001"
    by (simp add: rat_ops_def py_int_def strip_def is_space_def digit_val_def)
  have quot: "fdiv rat_ops 30000 1001 = Some (30000 / 1001)"
    by (simp add: rat_ops_def)
  have thirty: "f_thirty rat_ops = 30"
    by (simp add: rat_ops_def)
  have a: "get_video_info rat_ops (ProbeParsed (example_probe [(''r_frame_rate'', JStr ''30000/1001'')]))
     = Inr (Some (10, 30000 / 1001))"
    using probe_frame_rate [where ops = rat_ops
        and data = "example_probe [(''r_frame_rate'', JStr ''30000/1001'')]"
        and fmt = "JObj [(''duration'', JStr ''10'')]" and d = "JStr ''10''" and duration = 10
        and streams = "JArr [JObj [(''codec_type'', JStr ''audio'')],
              JObj [(''codec_type'', JStr ''video''), (''r_frame_rate'', JStr ''30000/1001'')]]"
        and ss = "[JObj [(''codec_type'', JStr ''audio'')],
              JObj [(''codec_type'', JStr ''video''), (''r_frame_rate'', JStr ''30000/1001'')]]"
        and items = "[(''codec_type'', JStr ''video''), (''r_frame_rate'', JStr ''30000/1001'')]"]
      ten num den quot
    by (simp add: example_probe_def)
  have b: "get_video_info rat_ops (ProbeParsed (example_probe [(''r_frame_rate'', JStr ''0/0'')]))
     = Inr (Some (10, 30))"
    using probe_frame_rate [where ops = rat_ops
        and data = "example_probe [(''r_frame_rate'', JStr ''0/0'')]"
        and fmt = "JObj [(''duration'', JStr ''10'')]" and d = "JStr ''10''" and duration = 10
        and streams = "JArr [JObj [(''codec_type'', JStr ''audio'')],
              JObj [(''codec_type'', JStr ''video''), (''r_frame_rate'', JStr ''0/0'')]]"
        and ss = "[JObj [(''codec_type'', JStr ''audio'')],
              JObj [(''codec_type'', JStr ''video''), (''r_frame_rate'', JStr ''0/0'')]]"
        and items = "[(''codec_type'', JStr ''video''), (''r_frame_rate'', JStr ''0/0'')]"]
      ten thirty
    by (simp add: example_probe_def)
  have c: "get_video_info rat_ops (ProbeParsed (example_probe [])) = Inr (Some (10, 30))"
    using probe_frame_rate [where ops = rat_ops
        and data = "example_probe []"
        and fmt = "JObj [(''duration'', JStr ''10'')]" and d = "JStr ''10''" and duration = 10
        and streams = "JArr [JObj [(''codec_type'', JStr ''audio'')],
              JObj [(''codec_type'', JStr ''video'')]]"
        and ss = "[JObj [(''codec_type'', JStr ''audio'')], JObj [(''codec_type'', JStr ''video'')]]"
        and items = "[(''codec_type'', JStr ''video'')]"]
      ten thirty
    by (simp add: example_probe_def)
  from a b c show ?thesis by simp
qed

text \<open>
  The claim as it was stated, 30.0 for every zero denominator and for every video
  stream without the field, fails in three ways. Where the denominator is zero but is
  not written \<^verbatim>\<open>0\<close>: for the rate \<^verbatim>\<open>25/00\<close> the second part reads as zero, the division
  raises \<^verbatim>\<open>ZeroDivisionError\<close>, and the probe returns \<^verbatim>\<open>(None, None)\<close>. Where a stream
  before the video stream has no \<^verbatim>\<open>codec_type\<close>: the search for the video stream raises
  \<^verbatim>\<open>KeyError\<close>, and the probe returns \<^verbatim>\<open>(None, None)\<close> although the video stream lacks
  the field. Where the format metadata has no duration: \<^verbatim>\<open>KeyError\<close> again, and
  \<^verbatim>\<open>(None, None)\<close>.
\<close>

theorem probe_frame_rate_counterexample:
  "float_of_str rat_ops ''00'' = Some 0
   \<and> get_video_info rat_ops (ProbeParsed (example_probe [(''r_frame_rate'', JStr ''25/00'')]))
     = Inr None
   \<and> get_video_info rat_ops (ProbeParsed example_probe_untyped_stream) = Inr None
   \<and> get_video_info rat_ops (ProbeParsed example_probe_no_duration) = Inr None"
  by (simp add: get_video_info_def video_info_of_json_def frame_rate_def example_probe_def Let_def
      example_probe_untyped_stream_def example_probe_no_duration_def
      probe_caught_def rat_ops_def py_int_def strip_def is_space_def digit_val_def)

section \<open>Properties of the batch workers\<close>

lemma skip_condition_cases:
  assumes "skip_condition w video_path"
  obtains "\<not> path_exists w video_path"
  | "path_exists w video_path" and "get_video_info (float w) (probe w video_path) = Inr None"
  | duration fps frame where "path_exists w video_path"
      and "get_video_info (float w) (probe w video_path) = Inr (Some (duration, fps))"
      and "fdiv (float w) (f_one (float w)) fps = Some frame"
      and "fle (float w) duration frame"
proof (cases "path_exists w video_path")
  case False
  then show ?thesis by (rule that(1))
next
  case True
  with assms have c: "(case get_video_info (float w) (probe w video_path) of
            Inl e \<Rightarrow> False
          | Inr None \<Rightarrow> True
          | Inr (Some (duration, fps)) \<Rightarrow>
              (case fdiv (float w) (f_one (float w)) fps of
                 None \<Rightarrow> False
               | Some frame \<Rightarrow> fle (float w) duration frame))"
    by (simp add: skip_condition_def)
  show ?thesis
  proof (cases "get_video_info (float w) (probe w video_path)")
    case (Inl e)
    with c show ?thesis by simp
  next
    case (Inr info)
    show ?thesis
    proof (cases info)
      case None
      with Inr True show ?thesis by (intro that(2)) simp_all
    next
      case (Some df)
      obtain duration fps where df: "df = (duration, fps)" by (cases df)
      show ?thesis
      proof (cases "fdiv (float w) (f_one (float w)) fps")
        case None
        with c Inr Some df show ?thesis by simp
      next
        case (Some frame)
        with c Inr \<open>info = Some df\<close> df have "fle (float w) duration frame" by simp
        with True Inr \<open>info = Some df\<close> df Some show ?thesis by (intro that(3)) simp_all
      qed
    qed
  qed
qed

lemma extract_item_skip:
  assumes "skip_condition w video_path"
  shows "extract_item w output_dir total_videos i video_path st
           = (False, item_started total_videos i video_path st)"
  using assms
proof (cases rule: skip_condition_cases)
  case 1
  then show ?thesis by (simp add: extract_item_def item_started_def Let_def)
next
  case 2
  then show ?thesis by (simp add: extract_item_def item_started_def Let_def)
next
  case (3 duration fps frame)
  then show ?thesis by (simp add: extract_item_def item_started_def Let_def)
qed

lemma trim_item_skip:
  assumes "skip_condition w video_path"
  shows "trim_item w output_dir total_videos i video_path st
           = (False, item_started total_videos i video_path st)"
  using assms
proof (cases rule: skip_condition_cases)
  case 1
  then show ?thesis by (simp add: trim_item_def item_started_def Let_def)
next
  case 2
  then show ?thesis by (simp add: trim_item_def item_started_def Let_def)
next
  case (3 duration fps frame)
  then show ?thesis by (simp add: trim_item_def item_started_def Let_def)
qed

text \<open>
  Claim C4. If the video does not exist at its path, or the probe is not available, or
  the probed duration is at most \<^verbatim>\<open>1 / fps\<close>, then the pass of the extract worker and
  the pass of the trim worker both end without success, having set progress and status
  only: no extract or trim command is run, the file system is as before (no counter
  is allocated, no placeholder created), \<open>success_count\<close> is not incremented, and the
  loop goes on with the next item.
\<close>

theorem skip_without_tool:
  assumes "skip_condition w video_path"
  shows "extract_item w output_dir total_videos i video_path st
           = (False, item_started total_videos i video_path st)
       \<and> trim_item w output_dir total_videos i video_path st
           = (False, item_started total_videos i video_path st)
       \<and> tool_calls (item_started total_videos i video_path st) = tool_calls st
       \<and> disk (item_started total_videos i video_path st) = disk st
       \<and> extract_loop w output_dir total_videos i (video_path # rest) success_count st
           = extract_loop w output_dir total_videos (Suc i) rest success_count
               (item_started total_videos i video_path st)
       \<and> trim_loop w output_dir total_videos i (video_path # rest) success_count st
           = trim_loop w output_dir total_videos (Suc i) rest success_count
               (item_started total_videos i video_path st)"
  using extract_item_skip [OF assms] trim_item_skip [OF assms]
  by (simp add: item_started_def)

lemma example_tiny:
  "get_video_info rat_ops (ProbeParsed (example_probe [(''r_frame_rate'', JStr ''1/20'')]))
     = Inr (Some (10, 1 / 20))"
  by (simp add: get_video_info_def probe_caught_def
    video_info_of_json_def frame_rate_def example_probe_def Let_def
    rat_ops_def py_int_def strip_def is_space_def digit_val_def)

text \<open>
  Three items, one for each condition, in one batch: both loops end with no success
  and with the state of the start but for progress and status.
\<close>

theorem skip_without_tool_witness:
  "skip_condition example_world ''/v/gone.mp4''
   \<and> skip_condition example_world ''/v/broken.mp4''
   \<and> skip_condition example_world ''/v/tiny.mp4''
   \<and> extract_loop example_world ''/v/last_frames'' 3 0
        [''/v/gone.mp4'', ''/v/broken.mp4'', ''/v/tiny.mp4''] 0 example_app
      = (0, example_app\<lparr>progress_var := 200 / 3, status_var := ''Processing: tiny.mp4''\<rparr>)
   \<and> trim_loop example_world ''/v/trimmed_videos'' 3 0
        [''/v/gone.mp4'', ''/v/broken.mp4'', ''/v/tiny.mp4''] 0 example_app
      = (0, example_app\<lparr>progress_var := 200 / 3, status_var := ''Processing: tiny.mp4''\<rparr>)"
proof -
  have gone: "skip_condition example_world ''/v/gone.mp4''"
    by (simp add: skip_condition_def example_world_def)
  have broken: "skip_condition example_world ''/v/broken.mp4''"
    by (simp add: skip_condition_def example_world_def get_video_info_def probe_caught_def)
  have tiny: "skip_condition example_world ''/v/tiny.mp4''"
    by (simp add: skip_condition_def example_world_def example_tiny) (simp add: rat_ops_def)
  have names: "path_name ''/v/gone.mp4'' = ''gone.mp4''" "path_name ''/v/broken.mp4'' = ''broken.mp4''"
    "path_name ''/v/tiny.mp4'' = ''tiny.mp4''"
    by (simp_all add: path_name_def)
  have "extract_loop example_world ''/v/last_frames'' 3 0
        [''/v/gone.mp4'', ''/v/broken.mp4'', ''/v/tiny.mp4''] 0 example_app
      = extract_loop example_world ''/v/last_frames'' 3 (Suc 0) [''/v/broken.mp4'', ''/v/tiny.mp4''] 0
          (item_started 3 0 ''/v/gone.mp4'' example_app)"
    using skip_without_tool [OF gone] by blast
  also have "\<dots> = extract_loop example_world ''/v/last_frames'' 3 (Suc (Suc 0)) [''/v/tiny.mp4''] 0
          (item_started 3 (Suc 0) ''/v/broken.mp4'' (item_started 3 0 ''/v/gone.mp4'' example_app))"
    using skip_without_tool [OF broken] by blast
  also have "\<dots> = extract_loop example_world ''/v/last_frames'' 3 (Suc (Suc (Suc 0))) [] 0
          (item_started 3 (Suc (Suc 0)) ''/v/tiny.mp4''
             (item_started 3 (Suc 0) ''/v/broken.mp4'' (item_started 3 0 ''/v/gone.mp4'' example_app)))"
    using skip_without_tool [OF tiny] by blast
  also have "\<dots> = (0, example_app\<lparr>progress_var := 200 / 3, status_var := ''Processing: tiny.mp4''\<rparr>)"
    by (simp add: item_started_def names)
  finally have e: "extract_loop example_world ''/v/last_frames'' 3 0
        [''/v/gone.mp4'', ''/v/broken.mp4'', ''/v/tiny.mp4''] 0 example_app
      = (0, example_app\<lparr>progress_var := 200 / 3, status_var := ''Processing: tiny.mp4''\<rparr>)" .
  have "trim_loop example_world ''/v/trimmed_videos'' 3 0
        [''/v/gone.mp4'', ''/v/broken.mp4'', ''/v/tiny.mp4''] 0 example_app
      = trim_loop example_world ''/v/trimmed_videos'' 3 (Suc 0) [''/v/broken.mp4'', ''/v/tiny.mp4''] 0
          (item_started 3 0 ''/v/gone.mp4'' example_app)"
    using skip_without_tool [OF gone] by blast
  also have "\<dots> = trim_loop example_world ''/v/trimmed_videos'' 3 (Suc (Suc 0)) [''/v/tiny.mp4''] 0
          (item_started 3 (Suc 0) ''/v/broken.mp4'' (item_started 3 0 ''/v/gone.mp4'' example_app))"
    using skip_without_tool [OF broken] by blast
  also have "\<dots> = trim_loop example_world ''/v/trimmed_videos'' 3 (Suc (Suc (Suc 0))) [] 0
          (item_started 3 (Suc (Suc 0)) ''/v/tiny.mp4''
             (item_started 3 (Suc 0) ''/v/broken.mp4'' (item_started 3 0 ''/v/gone.mp4'' example_app)))"
    using skip_without_tool [OF tiny] by blast
  also have "\<dots> = (0, example_app\<lparr>progress_var := 200 / 3, status_var := ''Processing: tiny.mp4''\<rparr>)"
    by (simp add: item_started_def names)
  finally have t: "trim_loop example_world ''/v/trimmed_videos'' 3 0
        [''/v/gone.mp4'', ''/v/broken.mp4'', ''/v/tiny.mp4''] 0 example_app
      = (0, example_app\<lparr>progress_var := 200 / 3, status_var := ''Processing: tiny.mp4''\<rparr>)" .
  from gone broken tiny e t show ?thesis by simp
qed

section \<open>Properties of the batch workers, continued\<close>

lemma extract_item_ui_log:
  "ui_log (snd (extract_item w output_dir total_videos i video_path st)) = ui_log st"
  by (simp add: extract_item_def Let_def split: sum.split option.split prod.split)

lemma trim_item_ui_log:
  "ui_log (snd (trim_item w output_dir total_videos i video_path st)) = ui_log st"
  by (simp add: trim_item_def Let_def split: sum.split option.split prod.split)

lemma extract_loop_ui_log:
  "ui_log (snd (extract_loop w output_dir total_videos i vids n st)) = ui_log st"
proof (induction vids arbitrary: i n st)
  case Nil
  show ?case by simp
next
  case (Cons v vids)
  obtain ok st' where it: "extract_item w output_dir total_videos i v st = (ok, st')"
    by (cases "extract_item w output_dir total_videos i v st")
  with extract_item_ui_log [of w output_dir total_videos i v st] have "ui_log st' = ui_log st"
    by simp
  with it Cons.IH show ?case by simp
qed

lemma trim_loop_ui_log:
  "ui_log (snd (trim_loop w output_dir total_videos i vids n st)) = ui_log st"
proof (induction vids arbitrary: i n st)
  case Nil
  show ?case by simp
next
  case (Cons v vids)
  obtain ok st' where it: "trim_item w output_dir total_videos i v st = (ok, st')"
    by (cases "trim_item w output_dir total_videos i v st")
  with trim_item_ui_log [of w output_dir total_videos i v st] have "ui_log st' = ui_log st"
    by simp
  with it Cons.IH show ?case by simp
qed

lemma extract_loop_count:
  "fst (extract_loop w output_dir total_videos i vids n st) \<le> n + length vids"
proof (induction vids arbitrary: i n st)
  case Nil
  show ?case by simp
next
  case (Cons v vids)
  obtain ok st' where it: "extract_item w output_dir total_videos i v st = (ok, st')"
    by (cases "extract_item w output_dir total_videos i v st")
  have "fst (extract_loop w output_dir total_videos (Suc i) vids (if ok then n + 1 else n) st')
          \<le> (if ok then n + 1 else n) + length vids"
    by (rule Cons.IH)
  with it show ?case by (cases ok) auto
qed

lemma trim_loop_count:
  "fst (trim_loop w output_dir total_videos i vids n st) \<le> n + length vids"
proof (induction vids arbitrary: i n st)
  case Nil
  show ?case by simp
next
  case (Cons v vids)
  obtain ok st' where it: "trim_item w output_dir total_videos i v st = (ok, st')"
    by (cases "trim_item w output_dir total_videos i v st")
  have "fst (trim_loop w output_dir total_videos (Suc i) vids (if ok then n + 1 else n) st')
          \<le> (if ok then n + 1 else n) + length vids"
    by (rule Cons.IH)
  with it show ?case by (cases ok) auto
qed

lemma extract_thread_flag: "\<not> is_processing (extract_last_frames_thread w vids st)"
  by (simp add: extract_last_frames_thread_def Let_def split: prod.split sum.split)

lemma trim_thread_flag: "\<not> is_processing (trim_last_frames_thread w vids st)"
  by (simp add: trim_last_frames_thread_def Let_def split: prod.split sum.split)

lemma extract_thread_complete:
  assumes "ffmpeg_version w = None"
    and "makedirs_error w (path_join (video_dir st) ''last_frames'') = None"
  shows "ui_log (extract_last_frames_thread w vids st) =
           ui_log st @ [After (ExtractionComplete
             (fst (extract_loop w (path_join (video_dir st) ''last_frames'') (length vids) 0 vids 0
                (worker_started ''Extracting last frames...'' (path_join (video_dir st) ''last_frames'') st)))
             (path_join (video_dir st) ''last_frames'') (length vids))]"
proof -
  let ?out = "path_join (video_dir st) ''last_frames''"
  let ?st0 = "st\<lparr>is_processing := True, progress_var := 0,
                 status_var := ''Extracting last frames...''\<rparr>"
  let ?st2 = "worker_started ''Extracting last frames...'' ?out st"
  have mk: "makedirs w ?out ?st0 = Inr ?st2"
    using assms(2) by (simp add: makedirs_def worker_started_def Let_def)
  obtain n st3 where loop: "extract_loop w ?out (length vids) 0 vids 0 ?st2 = (n, st3)"
    by (cases "extract_loop w ?out (length vids) 0 vids 0 ?st2")
  with extract_loop_ui_log [of w ?out "length vids" 0 vids 0 ?st2]
  have log: "ui_log st3 = ui_log st" by (simp add: worker_started_def Let_def)
  have "extract_last_frames_thread w vids st =
          (show_dialog (After (ExtractionComplete n ?out (length vids))) st3)\<lparr>is_processing := False\<rparr>"
    using assms(1)
    by (simp add: extract_last_frames_thread_def extract_last_frames_try_def check_ffmpeg_def
        Let_def mk loop)
  with log loop show ?thesis by (simp add: show_dialog_def)
qed

lemma trim_thread_complete:
  assumes "makedirs_error w (path_join (video_dir st) ''trimmed_videos'') = None"
  shows "ui_log (trim_last_frames_thread w vids st) =
           ui_log st @ [After (TrimmingComplete
             (fst (trim_loop w (path_join (video_dir st) ''trimmed_videos'') (length vids) 0 vids 0
                (worker_started ''Trimming last frames...'' (path_join (video_dir st) ''trimmed_videos'') st)))
             (path_join (video_dir st) ''trimmed_videos'') (length vids))]"
proof -
  let ?out = "path_join (video_dir st) ''trimmed_videos''"
  let ?st0 = "st\<lparr>is_processing := True, progress_var := 0,
                 status_var := ''Trimming last frames...''\<rparr>"
  let ?st2 = "worker_started ''Trimming last frames...'' ?out st"
  have mk: "makedirs w ?out ?st0 = Inr ?st2"
    using assms by (simp add: makedirs_def worker_started_def Let_def)
  obtain n st3 where loop: "trim_loop w ?out (length vids) 0 vids 0 ?st2 = (n, st3)"
    by (cases "trim_loop w ?out (length vids) 0 vids 0 ?st2")
  with trim_loop_ui_log [of w ?out "length vids" 0 vids 0 ?st2]
  have log: "ui_log st3 = ui_log st" by (simp add: worker_started_def Let_def)
  have "trim_last_frames_thread w vids st =
          (show_dialog (After (TrimmingComplete n ?out (length vids))) st3)\<lparr>is_processing := False\<rparr>"
    by (simp add: trim_last_frames_thread_def trim_last_frames_try_def Let_def mk loop)
  with log loop show ?thesis by (simp add: show_dialog_def)
qed

text \<open>
  When the set-up of a worker raises, the run adds to the log what the tool check
  showed, if it showed something, and the lambda of the outer \<^verbatim>\<open>except\<close> clause.
\<close>

lemma extract_thread_set_up_raises:
  assumes "ffmpeg_version w \<noteq> None
           \<or> makedirs_error w (path_join (video_dir st) ''last_frames'') \<noteq> None"
  shows "ui_log (extract_last_frames_thread w vids st) = ui_log st @ [After ExtractionFailed]
       \<or> (\<exists>msg. ui_log (extract_last_frames_thread w vids st)
                  = ui_log st @ [ShowError msg, After ExtractionFailed])"
proof (cases "ffmpeg_version w")
  case (Some e)
  then show ?thesis
    by (simp add: extract_last_frames_thread_def extract_last_frames_try_def check_ffmpeg_def
        show_dialog_def Let_def)
next
  case None
  with assms obtain e where "makedirs_error w (path_join (video_dir st) ''last_frames'') = Some e"
    by auto
  with None show ?thesis
    by (simp add: extract_last_frames_thread_def extract_last_frames_try_def check_ffmpeg_def
        makedirs_def show_dialog_def Let_def)
qed

lemma trim_thread_set_up_raises:
  assumes "makedirs_error w (path_join (video_dir st) ''trimmed_videos'') \<noteq> None"
  shows "ui_log (trim_last_frames_thread w vids st) = ui_log st @ [After TrimmingFailed]"
proof -
  from assms obtain e where "makedirs_error w (path_join (video_dir st) ''trimmed_videos'') = Some e"
    by auto
  then show ?thesis
    by (simp add: trim_last_frames_thread_def trim_last_frames_try_def makedirs_def
        show_dialog_def Let_def)
qed

text \<open>
  Run once the worker has ended, the lambda of an outer \<^verbatim>\<open>except\<close> clause raises
  \<^verbatim>\<open>NameError\<close> and changes nothing.
\<close>

lemma run_callback_failed:
  "run_callback ExtractionFailed st = (Some NameError, st)
   \<and> run_callback TrimmingFailed st = (Some NameError, st)"
  by simp

text \<open>
  Claim C3, as amended. Every run of a batch worker clears the flag
  \<^verbatim>\<open>is_processing\<close>, on every path through the guarded body. The completion callback
  is posted, with the count of successes, the output directory and the number of
  videos, when the set-up before the loop succeeds (for the extract worker: the tool
  check and the creation of the output directory; for the trim worker: the creation of
  the output directory); failures of single items only keep the count down. When the
  set-up raises, the run extends the log by events none of which is a completion
  callback.
\<close>

theorem worker_exit_paths:
  "\<not> is_processing (extract_last_frames_thread w vids st)
   \<and> \<not> is_processing (trim_last_frames_thread w vids st)
   \<and> (ffmpeg_version w = None \<and> makedirs_error w (path_join (video_dir st) ''last_frames'') = None \<longrightarrow>
        ui_log (extract_last_frames_thread w vids st) =
          ui_log st @ [After (ExtractionComplete
            (fst (extract_loop w (path_join (video_dir st) ''last_frames'') (length vids) 0 vids 0
               (worker_started ''Extracting last frames...'' (path_join (video_dir st) ''last_frames'') st)))
            (path_join (video_dir st) ''last_frames'') (length vids))]
        \<and> fst (extract_loop w (path_join (video_dir st) ''last_frames'') (length vids) 0 vids 0
               (worker_started ''Extracting last frames...'' (path_join (video_dir st) ''last_frames'') st))
            \<le> length vids)
   \<and> (ffmpeg_version w \<noteq> None \<or> makedirs_error w (path_join (video_dir st) ''last_frames'') \<noteq> None \<longrightarrow>
        (\<exists>evs. ui_log (extract_last_frames_thread w vids st) = ui_log st @ evs
           \<and> (\<forall>n d t. After (ExtractionComplete n d t) \<notin> set evs)
           \<and> (\<forall>n d t. After (TrimmingComplete n d t) \<notin> set evs)))
   \<and> (makedirs_error w (path_join (video_dir st) ''trimmed_videos'') = None \<longrightarrow>
        ui_log (trim_last_frames_thread w vids st) =
          ui_log st @ [After (TrimmingComplete
            (fst (trim_loop w (path_join (video_dir st) ''trimmed_videos'') (length vids) 0 vids 0
               (worker_started ''Trimming last frames...'' (path_join (video_dir st) ''trimmed_videos'') st)))
            (path_join (video_dir st) ''trimmed_videos'') (length vids))]
        \<and> fst (trim_loop w (path_join (video_dir st) ''trimmed_videos'') (length vids) 0 vids 0
               (worker_started ''Trimming last frames...'' (path_join (video_dir st) ''trimmed_videos'') st))
            \<le> length vids)
   \<and> (makedirs_error w (path_join (video_dir st) ''trimmed_videos'') \<noteq> None \<longrightarrow>
        (\<exists>evs. ui_log (trim_last_frames_thread w vids st) = ui_log st @ evs
           \<and> (\<forall>n d t. After (ExtractionComplete n d t) \<notin> set evs)
           \<and> (\<forall>n d t. After (TrimmingComplete n d t) \<notin> set evs)))"
proof -
  have ex: "\<exists>evs. ui_log (extract_last_frames_thread w vids st) = ui_log st @ evs
           \<and> (\<forall>n d t. After (ExtractionComplete n d t) \<notin> set evs)
           \<and> (\<forall>n d t. After (TrimmingComplete n d t) \<notin> set evs)"
    if "ffmpeg_version w \<noteq> None
        \<or> makedirs_error w (path_join (video_dir st) ''last_frames'') \<noteq> None"
    using extract_thread_set_up_raises [OF that, of vids] by auto
  have tr: "\<exists>evs. ui_log (trim_last_frames_thread w vids st) = ui_log st @ evs
           \<and> (\<forall>n d t. After (ExtractionComplete n d t) \<notin> set evs)
           \<and> (\<forall>n d t. After (TrimmingComplete n d t) \<notin> set evs)"
    if "makedirs_error w (path_join (video_dir st) ''trimmed_videos'') \<noteq> None"
    using trim_thread_set_up_raises [OF that, of vids] by auto
  from ex tr show ?thesis
    using extract_thread_flag [of w vids st] trim_thread_flag [of w vids st]
      extract_thread_complete [of w st vids] trim_thread_complete [of w st vids]
      extract_loop_count [of w "path_join (video_dir st) ''last_frames''" "length vids" 0 vids 0]
      trim_loop_count [of w "path_join (video_dir st) ''trimmed_videos''" "length vids" 0 vids 0]
    by simp
qed

lemma example_extract_run:
  "fst (extract_loop example_world ''/v/last_frames'' (Suc (Suc 0)) 0 [''/v/a.mp4'', ''/v/gone.mp4''] 0
     (worker_started ''Extracting last frames...'' ''/v/last_frames'' example_app)) = 1"
  by code_simp

lemma example_trim_run:
  "fst (trim_loop example_world ''/v/trimmed_videos'' (Suc (Suc 0)) 0 [''/v/a.mp4'', ''/v/gone.mp4''] 0
     (worker_started ''Trimming last frames...'' ''/v/trimmed_videos'' example_app)) = 1"
  by code_simp

text \<open>
  A batch of two videos, the second of which is gone: both workers report one success
  out of two and clear the flag. Where no directory can be made, neither worker posts
  the completion callback for its one video.
\<close>

theorem worker_exit_paths_witness:
  "ui_log (extract_last_frames_thread example_world [''/v/a.mp4'', ''/v/gone.mp4''] example_app)
     = [After (ExtractionComplete 1 ''/v/last_frames'' 2)]
   \<and> \<not> is_processing (extract_last_frames_thread example_world [''/v/a.mp4'', ''/v/gone.mp4''] example_app)
   \<and> ui_log (trim_last_frames_thread example_world [''/v/a.mp4'', ''/v/gone.mp4''] example_app)
     = [After (TrimmingComplete 1 ''/v/trimmed_videos'' 2)]
   \<and> \<not> is_processing (trim_last_frames_thread example_world [''/v/a.mp4'', ''/v/gone.mp4''] example_app)
   \<and> After (ExtractionComplete 1 ''/v/last_frames'' 1)
       \<notin> set (ui_log (extract_last_frames_thread example_world_without_directory [''/v/a.mp4''] example_app))
   \<and> After (TrimmingComplete 1 ''/v/trimmed_videos'' 1)
       \<notin> set (ui_log (trim_last_frames_thread example_world_without_directory [''/v/a.mp4''] example_app))"
proof -
  have w: "ffmpeg_version example_world = None" "makedirs_error example_world d = None" for d
    by (simp_all add: example_world_def)
  have w': "makedirs_error example_world_without_directory d = Some OSError" for d
    by (simp add: example_world_without_directory_def)
  have st: "video_dir example_app = ''/v''" "ui_log example_app = []"
    by (simp_all add: example_app_def)
  have dirs: "path_join ''/v'' ''last_frames'' = ''/v/last_frames''"
    "path_join ''/v'' ''trimmed_videos'' = ''/v/trimmed_videos''"
    by (simp_all add: path_join_def)
  have a: "ui_log (extract_last_frames_thread example_world [''/v/a.mp4'', ''/v/gone.mp4''] example_app)
     = [After (ExtractionComplete 1 ''/v/last_frames'' 2)]
   \<and> \<not> is_processing (extract_last_frames_thread example_world [''/v/a.mp4'', ''/v/gone.mp4''] example_app)
   \<and> ui_log (trim_last_frames_thread example_world [''/v/a.mp4'', ''/v/gone.mp4''] example_app)
     = [After (TrimmingComplete 1 ''/v/trimmed_videos'' 2)]
   \<and> \<not> is_processing (trim_last_frames_thread example_world [''/v/a.mp4'', ''/v/gone.mp4''] example_app)"
    using worker_exit_paths [of example_world "[''/v/a.mp4'', ''/v/gone.mp4'']" example_app]
    by (simp add: w st dirs example_extract_run example_trim_run
        del: extract_loop.simps trim_loop.simps)
  have b: "After (ExtractionComplete 1 ''/v/last_frames'' 1)
       \<notin> set (ui_log (extract_last_frames_thread example_world_without_directory [''/v/a.mp4''] example_app))
   \<and> After (TrimmingComplete 1 ''/v/trimmed_videos'' 1)
       \<notin> set (ui_log (trim_last_frames_thread example_world_without_directory [''/v/a.mp4''] example_app))"
    using worker_exit_paths [of example_world_without_directory "[''/v/a.mp4'']" example_app]
    by (auto simp: w' st simp del: extract_loop.simps trim_loop.simps)
  from a b show ?thesis by simp
qed

text \<open>
  The claim as it was stated, a completion callback on every exit path, fails on the
  paths through the outer \<^verbatim>\<open>except\<close>: when the tool check of the extract worker
  fails, or the output directory of the trim worker cannot be made, the log of the run
  holds the dialog of the tool check and the lambda of the \<^verbatim>\<open>except\<close> clause, and no
  completion callback.
\<close>

theorem worker_exit_paths_counterexample:
  "ui_log (extract_last_frames_thread example_world_without_tool [''/v/a.mp4''] example_app)
     = [ShowError ''FFmpeg is not installed or not available. Please install FFmpeg to use trimming functionality.'',
        After ExtractionFailed]
   \<and> ui_log (trim_last_frames_thread example_world_without_directory [''/v/a.mp4''] example_app)
     = [After TrimmingFailed]"
  by (simp add: extract_last_frames_thread_def trim_last_frames_thread_def
      extract_last_frames_try_def trim_last_frames_try_def check_ffmpeg_def
      makedirs_def show_dialog_def example_world_without_tool_def
      example_world_without_directory_def example_world_def example_app_def Let_def)

section \<open>Properties of the requests\<close>

text \<open>
  Claim C6. A request for an extract or a trim run that finds the flag
  \<^verbatim>\<open>is_processing\<close> set returns at once: the warning is shown, which is the busy
  signal, and nothing else changes: no worker is started, progress and status, the
  video list and the flag are as they were.
\<close>

theorem busy_rejection:
  assumes "is_processing st"
  shows "extract_last_frames selected st = Inr (st\<lparr>ui_log := ui_log st @ [busy_warning]\<rparr>)
       \<and> trim_last_frames w selected st = Inr (st\<lparr>ui_log := ui_log st @ [busy_warning]\<rparr>)
       \<and> threads (st\<lparr>ui_log := ui_log st @ [busy_warning]\<rparr>) = threads st
       \<and> progress_var (st\<lparr>ui_log := ui_log st @ [busy_warning]\<rparr>) = progress_var st
       \<and> status_var (st\<lparr>ui_log := ui_log st @ [busy_warning]\<rparr>) = status_var st
       \<and> videos (st\<lparr>ui_log := ui_log st @ [busy_warning]\<rparr>) = videos st
       \<and> heap (st\<lparr>ui_log := ui_log st @ [busy_warning]\<rparr>) = heap st
       \<and> is_processing (st\<lparr>ui_log := ui_log st @ [busy_warning]\<rparr>)"
  using assms by (simp add: extract_last_frames_def trim_last_frames_def show_dialog_def)

text \<open>Both requests on the example state with the flag set.\<close>

theorem busy_rejection_witness:
  "extract_last_frames False (example_app\<lparr>is_processing := True\<rparr>)
     = Inr (example_app\<lparr>is_processing := True, ui_log := [busy_warning]\<rparr>)
   \<and> trim_last_frames example_world True (example_app\<lparr>is_processing := True\<rparr>)
     = Inr (example_app\<lparr>is_processing := True, ui_log := [busy_warning]\<rparr>)"
  using busy_rejection [of "example_app\<lparr>is_processing := True\<rparr>" False example_world]
    busy_rejection [of "example_app\<lparr>is_processing := True\<rparr>" True example_world]
  by (simp add: example_app_def)

lemma foldl_append_video_frame:
  "videos (foldl (append_video d) st fs) = videos st
   \<and> next_addr (foldl (append_video d) st fs) = next_addr st
   \<and> (a \<noteq> videos st \<longrightarrow> heap (foldl (append_video d) st fs) a = heap st a)"
  by (induction fs arbitrary: st) (simp_all add: append_video_def)

lemma load_videos_try_frame:
  assumes "a < next_addr st"
  shows "heap (load_videos_try st) a = heap st a \<and> next_addr st \<le> next_addr (load_videos_try st)"
proof -
  let ?st1 = "st\<lparr>videos := next_addr st, heap := (heap st)(next_addr st := []),
                  next_addr := Suc (next_addr st), video_listbox := [], curselection := []\<rparr>"
  have st1: "heap ?st1 a = heap st a" "a \<noteq> videos ?st1" "next_addr ?st1 = Suc (next_addr st)"
    using assms by simp_all
  show ?thesis
  proof (cases "listdir (disk ?st1) (video_dir st)")
    case (Inl e)
    with st1 show ?thesis by (simp add: load_videos_try_def Let_def show_dialog_def)
  next
    case (Inr files)
    let ?fs = "sort (filter (\<lambda>f. lower (path_suffix f) \<in> video_extensions) files)"
    from foldl_append_video_frame [of "video_dir st" ?st1 ?fs a] st1
    have "heap (foldl (append_video (video_dir st)) ?st1 ?fs) a = heap st a"
      and "next_addr (foldl (append_video (video_dir st)) ?st1 ?fs) = Suc (next_addr st)"
      by simp_all
    with Inr show ?thesis
      by (simp add: load_videos_try_def Let_def show_dialog_def split: sum.split)
  qed
qed

lemma start_file_watching_frame:
  "heap (start_file_watching w st) = heap st \<and> next_addr (start_file_watching w st) = next_addr st"
  by (simp add: start_file_watching_def show_dialog_def stop_watching_def)

lemma load_videos_frame:
  assumes "a < next_addr st"
  shows "heap (load_videos w st) a = heap st a \<and> next_addr st \<le> next_addr (load_videos w st)"
  using load_videos_try_frame [OF assms]
  by (simp add: load_videos_def show_dialog_def start_file_watching_frame)

lemma browse_dir_frame:
  assumes "a < next_addr st"
  shows "heap (browse_dir w st) a = heap st a \<and> next_addr st \<le> next_addr (browse_dir w st)"
proof (cases "askdirectory w \<noteq> []")
  case False
  then show ?thesis by (simp add: browse_dir_def)
next
  case True
  let ?st' = "(stop_watching st)\<lparr>video_dir := askdirectory w\<rparr>"
  have "a < next_addr ?st'" "heap ?st' a = heap st a" "next_addr ?st' = next_addr st"
    using assms by (simp_all add: stop_watching_def)
  with load_videos_frame [of a ?st' w] True show ?thesis by (simp add: browse_dir_def)
qed

lemma get_selected_videos_frame:
  assumes "a < next_addr st" and "get_selected_videos selected st = Inr (vids, st1)"
  shows "heap st1 a = heap st a \<and> next_addr st \<le> next_addr st1"
  using assms by (auto simp: get_selected_videos_def new_list_def split: if_splits sum.splits)

lemma extract_last_frames_frame:
  assumes "a < next_addr st" and "extract_last_frames selected st = Inr st'"
  shows "heap st' a = heap st a \<and> next_addr st \<le> next_addr st'"
proof (cases "is_processing st")
  case True
  with assms(2) show ?thesis by (auto simp: extract_last_frames_def show_dialog_def)
next
  case False
  with assms(2) obtain vids st1 where g: "get_selected_videos selected st = Inr (vids, st1)"
    and "heap st' = heap st1" "next_addr st' = next_addr st1"
    by (auto simp: extract_last_frames_def show_dialog_def split: sum.splits if_splits)
  with get_selected_videos_frame [OF assms(1) g] show ?thesis by simp
qed

lemma trim_last_frames_frame:
  assumes "a < next_addr st" and "trim_last_frames w selected st = Inr st'"
  shows "heap st' a = heap st a \<and> next_addr st \<le> next_addr st'"
proof (cases "is_processing st")
  case True
  with assms(2) show ?thesis by (auto simp: trim_last_frames_def show_dialog_def)
next
  case False
  with assms(2) obtain vids st1 where g: "get_selected_videos selected st = Inr (vids, st1)"
    and "heap st' = heap st1" "next_addr st' = next_addr st1"
    by (auto simp: trim_last_frames_def show_dialog_def check_ffmpeg_def
        split: sum.splits if_splits option.splits)
  with get_selected_videos_frame [OF assms(1) g] show ?thesis by simp
qed

lemma ui_step_frame:
  assumes "a < next_addr st"
  shows "heap (ui_step act st) a = heap st a \<and> next_addr st \<le> next_addr (ui_step act st)"
proof -
  obtain w action where act: "act = (w, action)" by (cases act)
  show ?thesis
  proof (cases action)
    case LoadVideos
    with act load_videos_frame [OF assms] show ?thesis by simp
  next
    case BrowseDir
    with act browse_dir_frame [OF assms] show ?thesis by simp
  next
    case (Select indices)
    with act show ?thesis by simp
  next
    case (ExtractRequest selected)
    with act extract_last_frames_frame [OF assms] show ?thesis
      by (cases "extract_last_frames selected st") auto
  next
    case (TrimRequest selected)
    with act trim_last_frames_frame [OF assms] show ?thesis
      by (cases "trim_last_frames w selected st") auto
  qed
qed

lemma ui_run_frame:
  assumes "a < next_addr st"
  shows "heap (ui_run actions st) a = heap st a"
  using assms
proof (induction actions arbitrary: st)
  case Nil
  show ?case by simp
next
  case (Cons act actions)
  from ui_step_frame [OF Cons.prems, of act]
  have "heap (ui_step act st) a = heap st a" and "a < next_addr (ui_step act st)"
    using Cons.prems by simp_all
  with Cons.IH [of "ui_step act st"] show ?case by simp
qed

text \<open>
  Claim C10. \<^verbatim>\<open>get_selected_videos(False)\<close> returns a new list object, not the object
  \<^verbatim>\<open>self.videos\<close>, with the videos loaded at that moment. Whatever the main thread does
  afterwards (reloads, another directory, a new selection, further requests), the list
  at that address is the same, so a worker started on it processes those videos and
  reports their number.
\<close>

theorem snapshot_fixed:
  assumes "videos st < next_addr st"
    and "get_selected_videos False st = Inr (vids, st1)"
  shows "vids \<noteq> videos st1
       \<and> heap st1 vids = heap st (videos st)
       \<and> heap (ui_run actions st1) vids = heap st (videos st)
       \<and> run_thread w (ExtractThread vids) (ui_run actions st1)
           = extract_last_frames_thread w (heap st (videos st)) (ui_run actions st1)
       \<and> run_thread w (TrimThread vids) (ui_run actions st1)
           = trim_last_frames_thread w (heap st (videos st)) (ui_run actions st1)"
proof -
  from assms(2) have vids: "vids = next_addr st"
    and st1: "st1 = st\<lparr>heap := (heap st)(next_addr st := heap st (videos st)),
                        next_addr := Suc (next_addr st)\<rparr>"
    by (auto simp: get_selected_videos_def new_list_def)
  from vids st1 assms(1) have fresh: "vids \<noteq> videos st1" by simp
  from vids st1 have copy: "heap st1 vids = heap st (videos st)" by simp
  from vids st1 have "vids < next_addr st1" by simp
  then have "heap (ui_run actions st1) vids = heap st1 vids" by (rule ui_run_frame)
  with copy have later: "heap (ui_run actions st1) vids = heap st (videos st)" by simp
  from fresh copy later show ?thesis by (simp add: run_thread_def)
qed

text \<open>
  The user picks another directory while the worker is in flight: \<^verbatim>\<open>self.videos\<close> is
  then the list of the new directory, and the list of the worker is what it was.
\<close>

theorem snapshot_fixed_witness:
  "videos example_app < next_addr example_app
   \<and> get_selected_videos False example_app
       = Inr (1, snd (new_list [''/v/a.mp4'', ''/v/b.mov''] example_app))
   \<and> heap (ui_run [(example_world\<lparr>askdirectory := ''/w''\<rparr>, BrowseDir)]
             (snd (new_list [''/v/a.mp4'', ''/v/b.mov''] example_app))) 1
       = [''/v/a.mp4'', ''/v/b.mov'']
   \<and> heap (ui_run [(example_world\<lparr>askdirectory := ''/w''\<rparr>, BrowseDir)]
             (snd (new_list [''/v/a.mp4'', ''/v/b.mov''] example_app)))
        (videos (ui_run [(example_world\<lparr>askdirectory := ''/w''\<rparr>, BrowseDir)]
             (snd (new_list [''/v/a.mp4'', ''/v/b.mov''] example_app))))
       = [''/w/z.MKV'']"
proof -
  have wf: "videos example_app < next_addr example_app"
    by (simp add: example_app_def)
  have snap: "get_selected_videos False example_app
       = Inr (1, snd (new_list [''/v/a.mp4'', ''/v/b.mov''] example_app))"
    by (simp add: get_selected_videos_def new_list_def example_app_def)
  have loaded: "heap example_app (videos example_app) = [''/v/a.mp4'', ''/v/b.mov'']"
    by (simp add: example_app_def)
  have reload: "heap (ui_run [(example_world\<lparr>askdirectory := ''/w''\<rparr>, BrowseDir)]
             (snd (new_list [''/v/a.mp4'', ''/v/b.mov''] example_app)))
        (videos (ui_run [(example_world\<lparr>askdirectory := ''/w''\<rparr>, BrowseDir)]
             (snd (new_list [''/v/a.mp4'', ''/v/b.mov''] example_app))))
       = [''/w/z.MKV'']"
    by code_simp
  from snapshot_fixed [OF wf snap,
      where actions = "[(example_world\<lparr>askdirectory := ''/w''\<rparr>, BrowseDir)]"
        and w = example_world]
    wf snap loaded reload
  show ?thesis by simp
qed

end
